theory Spec2Isabelle
  imports Complex_Main
begin

section \<open>Python values and errors\<close>

text \<open>
  The adapter of \<^verbatim>\<open>rl/envs.py\<close> and the helper of \<^verbatim>\<open>rl/utils/np_ext.py\<close> are
  embedded as HOL functions. Every exception the Python can raise on the paths below is
  a value of \<open>error\<close>; a function that can raise returns \<open>error + 'a\<close> with \<open>Inl\<close>
  for the exception.

  The observation maps are stored as \<^verbatim>\<open>float32\<close>: the cast of the input, with its
  rounding, is part of the model (see the section on observation maps).
\<close>

datatype error = AssertionError | ValueError | IndexError | TypeError | KeyError

text \<open>
  Indexing a Python list or one axis of a numpy array of length \<open>n\<close> with an integer:
  \<open>-n \<le> i < 0\<close> counts from the end, anything outside \<open>[-n, n)\<close> raises IndexError.
\<close>

definition norm_index :: "nat \<Rightarrow> int \<Rightarrow> error + nat" where
  "norm_index n i =
     (if 0 \<le> i \<and> i < int n then Inr (nat i)
      else if - int n \<le> i \<and> i < 0 then Inr (nat (int n + i))
      else Inl IndexError)"

definition getitem :: "'a list \<Rightarrow> int \<Rightarrow> error + 'a" where
  "getitem xs i = (case norm_index (length xs) i of Inl e \<Rightarrow> Inl e | Inr k \<Rightarrow> Inr (xs ! k))"

text \<open>
  \<^verbatim>\<open>%\<close> and \<^verbatim>\<open>//\<close> on a numpy 64-bit integer scalar: floor division, as HOL's
  \<open>mod\<close> and \<open>div\<close> on \<open>int\<close>; a zero divisor gives 0 with a warning and raises
  nothing, and the one quotient that does not fit, \<open>-2^63 // -1\<close>, wraps to \<open>-2^63\<close>.
\<close>

definition np_mod :: "int \<Rightarrow> int \<Rightarrow> int" where
  "np_mod a b = (if b = 0 then 0 else a mod b)"

definition np_floordiv :: "int \<Rightarrow> int \<Rightarrow> int" where
  "np_floordiv a b =
     (if b = 0 then 0 else if a = - (2 ^ 63) \<and> b = - 1 then - (2 ^ 63) else a div b)"

section \<open>The action vocabulary and the handler\<close>

text \<open>
  \<^verbatim>\<open>actions.FUNCTIONS\<close> belongs to the simulator library, so the vocabulary is a
  parameter \<open>FUNCTIONS\<close> of every function that reads it: a list of entries, each with
  its ordered argument slots, of which the adapter reads only the name.
  The configuration file \<^verbatim>\<open>configs/sc2_config.yml\<close> is a parameter as well: a
  dictionary from the profile name to its settings.
\<close>

record argument_type =
  name :: string

record sc2_function =
  args :: "argument_type list"

record profile =
  step_mul :: int
  resl :: int

datatype function_call = FunctionCall int "int list list"

record handler =
  num_action :: nat
  screen_resolution :: int
  minimap_resolution :: int
  non_spatial_actions :: "bool list"

definition spatial_names :: "string list" where
  "spatial_names = [''screen'', ''minimap'', ''screen2'']"

text \<open>
  \<^verbatim>\<open>_get_nonspatial_actions\<close>: the inner loop over the slots of one entry stops at the
  first spatial slot (\<^verbatim>\<open>break\<close>); the outer loop walks \<^verbatim>\<open>enumerate(FUNCTIONS)\<close>.
  The list has \<open>num_action = len(FUNCTIONS)\<close> entries, so the store at \<open>func_id\<close> is
  always in range.
\<close>

fun scan_args :: "argument_type list \<Rightarrow> nat \<Rightarrow> bool list \<Rightarrow> bool list" where
  "scan_args [] func_id nsa = nsa"
| "scan_args (arg # rest) func_id nsa =
     (if name arg \<in> set spatial_names then nsa[func_id := False]
      else scan_args rest func_id nsa)"

fun nonspatial_loop :: "(nat \<times> sc2_function) list \<Rightarrow> bool list \<Rightarrow> bool list" where
  "nonspatial_loop [] nsa = nsa"
| "nonspatial_loop ((func_id, func) # rest) nsa =
     nonspatial_loop rest (scan_args (args func) func_id nsa)"

definition get_nonspatial_actions :: "sc2_function list \<Rightarrow> nat \<Rightarrow> bool list" where
  "get_nonspatial_actions FUNCTIONS n =
     nonspatial_loop (enumerate 0 FUNCTIONS) (replicate n True)"

text \<open>
  \<^verbatim>\<open>__init__\<close>: the mode is asserted to be one of the two profiles, the vocabulary size
  and the resolution are stored, and the classification is computed once.
\<close>

definition init_handler ::
  "sc2_function list \<Rightarrow> (string \<rightharpoonup> profile) \<Rightarrow> string \<Rightarrow> error + handler" where
  "init_handler FUNCTIONS sc2_cfg mode =
     (if mode \<notin> set [''dev'', ''test''] then Inl AssertionError
      else case sc2_cfg mode of
        None \<Rightarrow> Inl KeyError
      | Some p \<Rightarrow>
          Inr \<lparr> num_action = length FUNCTIONS,
                screen_resolution = resl p,
                minimap_resolution = resl p,
                non_spatial_actions = get_nonspatial_actions FUNCTIONS (length FUNCTIONS) \<rparr>)"

text \<open>
  \<^verbatim>\<open>is_nonspatial_action\<close> is written \<^verbatim>\<open>self.non_spatial_actions(action_id)\<close>: it
  calls the list instead of indexing it. Calling a list object raises TypeError
  whatever the list and the argument are.
\<close>

definition call_list :: "'a list \<Rightarrow> int \<Rightarrow> error + 'b" where
  "call_list xs a = Inl TypeError"

definition is_nonspatial_action :: "handler \<Rightarrow> int \<Rightarrow> error + bool" where
  "is_nonspatial_action h action_id = call_list (non_spatial_actions h) action_id"

text \<open>
  \<^verbatim>\<open>postprocess_action\<close>: both inputs are arrays of shape (1, 1), read at \<^verbatim>\<open>[0][0]\<close>.
  The loop appends one value per argument slot of the chosen entry.
\<close>

fun build_args :: "argument_type list \<Rightarrow> int list \<Rightarrow> int list list \<Rightarrow> int list list" where
  "build_args [] target_point act_args = act_args"
| "build_args (arg # rest) target_point act_args =
     (if name arg \<in> set spatial_names
      then build_args rest target_point (act_args @ [target_point])
      else build_args rest target_point (act_args @ [[0]]))"

definition at00 :: "int list list \<Rightarrow> error + int" where
  "at00 a = (case getitem a 0 of Inl e \<Rightarrow> Inl e | Inr row \<Rightarrow> getitem row 0)"

definition target_point :: "handler \<Rightarrow> int \<Rightarrow> int list" where
  "target_point h target =
     [np_mod target (screen_resolution h), np_floordiv target (screen_resolution h)]"

definition postprocess_action ::
  "handler \<Rightarrow> sc2_function list \<Rightarrow> int list list \<Rightarrow> int list list \<Rightarrow> error + function_call" where
  "postprocess_action h FUNCTIONS non_spatial_action spatial_action =
     (case at00 non_spatial_action of
        Inl e \<Rightarrow> Inl e
      | Inr act_id \<Rightarrow>
          (case at00 spatial_action of
             Inl e \<Rightarrow> Inl e
           | Inr target \<Rightarrow>
               (case getitem FUNCTIONS act_id of
                  Inl e \<Rightarrow> Inl e
                | Inr func \<Rightarrow>
                    Inr (FunctionCall act_id
                          (build_args (args func) (target_point h target) [])))))"

text \<open>
  \<^verbatim>\<open>_preprocess_available_actions\<close>: a zero vector of length \<open>num_action\<close>, then the
  indexed store \<^verbatim>\<open>a_actions[available_actions] = 1.\<close>, one store per listed index.
\<close>

fun set_items :: "real list \<Rightarrow> int list \<Rightarrow> real \<Rightarrow> error + real list" where
  "set_items a [] v = Inr a"
| "set_items a (i # rest) v =
     (case norm_index (length a) i of Inl e \<Rightarrow> Inl e | Inr k \<Rightarrow> set_items (a[k := v]) rest v)"

definition preprocess_available_actions :: "handler \<Rightarrow> int list \<Rightarrow> error + real list" where
  "preprocess_available_actions h ids =
     set_items (replicate (num_action h) 0) ids 1"

section \<open>Feature catalogs and observation maps\<close>

text \<open>
  \<^verbatim>\<open>features.SCREEN_FEATURES\<close> and \<^verbatim>\<open>features.MINIMAP_FEATURES\<close> belong to the
  simulator library, so each catalog is a parameter: a list of layer descriptions, of
  which the adapter reads the kind and the scale (the number of categories of a
  categorical layer).

  An array of shape (L, H, W) is the list of its L layers, each the list of its H rows
  of W values. A nested list keeps no extent behind an axis of length 0, so the
  \<^verbatim>\<open>shape[1]\<close> and \<^verbatim>\<open>shape[2]\<close> of such an array read as 0 here.
\<close>

datatype FeatureType = SCALAR | CATEGORICAL

record feature =
  type :: FeatureType
  scale :: nat

text \<open>
  A value of a numpy floating-point array: a real number, an infinity or NaN. The two
  zeros of the format are one value here; they compare equal and no operation below
  tells them apart.
\<close>

datatype npfloat = Finite real | PlusInf | MinusInf | NaN

type_synonym array2 = "npfloat list list"
type_synonym array3 = "npfloat list list list"
type_synonym array4 = "npfloat list list list list"

text \<open>
  \<^verbatim>\<open>np.array(screen, dtype=np.float32)\<close> rounds every value to the nearest
  single-precision number, ties to the even significand: 24 significant bits, binary
  exponents from -126 to 127, a fixed spacing of \<open>2^-149\<close> below \<open>2^-126\<close>, and
  an infinity where the rounded magnitude reaches \<open>2^128\<close>.
  \<open>exp_search x n\<close> tries the binary exponents \<open>n - 126\<close>, \<open>n - 127\<close>, ... down to
  -125 and answers the first that is not above \<open>x\<close>, or -126 if there is none.
\<close>

definition round_half_even :: "real \<Rightarrow> int" where
  "round_half_even r =
     (let f = \<lfloor>r\<rfloor>; d = r - of_int f
      in if d < 1 / 2 then f else if 1 / 2 < d then f + 1 else if even f then f else f + 1)"

fun exp_search :: "real \<Rightarrow> nat \<Rightarrow> int" where
  "exp_search x 0 = - 126"
| "exp_search x (Suc n) =
     (if 2 powi (int n - 125) \<le> x then int n - 125 else exp_search x n)"

definition float32_exponent :: "real \<Rightarrow> int" where
  "float32_exponent x = exp_search \<bar>x\<bar> 253"

definition float32_nearest :: "real \<Rightarrow> real" where
  "float32_nearest x =
     (let q = 2 powi (float32_exponent x - 23) in of_int (round_half_even (x / q)) * q)"

definition float32_round :: "real \<Rightarrow> npfloat" where
  "float32_round x =
     (let r = float32_nearest x
      in if 2 powi 128 \<le> \<bar>r\<bar> then (if 0 < x then PlusInf else MinusInf) else Finite r)"

definition astype_float32 :: "npfloat \<Rightarrow> npfloat" where
  "astype_float32 v =
     (case v of Finite x \<Rightarrow> float32_round x | PlusInf \<Rightarrow> PlusInf
      | MinusInf \<Rightarrow> MinusInf | NaN \<Rightarrow> NaN)"

definition np_array_float32 :: "array3 \<Rightarrow> array3" where
  "np_array_float32 a = map (map (map astype_float32)) a"

text \<open>
  Single-precision addition rounds the exact sum; NaN and the sum of opposite
  infinities give NaN. \<^verbatim>\<open>==\<close> and \<^verbatim>\<open><=\<close> are false whenever a side is NaN.
\<close>

fun float32_add :: "npfloat \<Rightarrow> npfloat \<Rightarrow> npfloat" where
  "float32_add NaN v = NaN"
| "float32_add v NaN = NaN"
| "float32_add (Finite x) (Finite y) = float32_round (x + y)"
| "float32_add PlusInf MinusInf = NaN"
| "float32_add MinusInf PlusInf = NaN"
| "float32_add PlusInf v = PlusInf"
| "float32_add v PlusInf = PlusInf"
| "float32_add MinusInf v = MinusInf"
| "float32_add v MinusInf = MinusInf"

definition np_eq :: "npfloat \<Rightarrow> npfloat \<Rightarrow> bool" where
  "np_eq u v = (u \<noteq> NaN \<and> v \<noteq> NaN \<and> u = v)"


definition has_shape2 :: "nat \<Rightarrow> nat \<Rightarrow> 'a list list \<Rightarrow> bool" where
  "has_shape2 h w m = (length m = h \<and> list_all (\<lambda>row. length row = w) m)"

definition has_shape3 :: "nat \<Rightarrow> nat \<Rightarrow> nat \<Rightarrow> array3 \<Rightarrow> bool" where
  "has_shape3 l h w a = (length a = l \<and> list_all (has_shape2 h w) a)"

definition has_shape4 :: "nat \<Rightarrow> nat \<Rightarrow> nat \<Rightarrow> nat \<Rightarrow> array4 \<Rightarrow> bool" where
  "has_shape4 n l h w t = (length t = n \<and> list_all (has_shape3 l h w) t)"

definition shape1 :: "array3 \<Rightarrow> nat" where
  "shape1 a = (case a of [] \<Rightarrow> 0 | layer # _ \<Rightarrow> length layer)"

definition shape2 :: "array3 \<Rightarrow> nat" where
  "shape2 a = (case a of (row # _) # _ \<Rightarrow> length row | _ \<Rightarrow> 0)"

definition np_zeros3 :: "nat \<Rightarrow> nat \<Rightarrow> nat \<Rightarrow> array3" where
  "np_zeros3 c h w = replicate c (replicate h (replicate w (Finite 0)))"

text \<open>
  \<^verbatim>\<open>np.log(screen[i:i + 1] + 1.)\<close>: the slice keeps the layer axis, of length 1, and
  the sum is a single-precision sum. \<^verbatim>\<open>np.log\<close> on a \<^verbatim>\<open>float32\<close> array is the
  numerical library's single-precision logarithm; the library does not fix its
  rounding, so it is a parameter \<open>np_log\<close> of the transformer.
\<close>

definition slice1 :: "array3 \<Rightarrow> nat \<Rightarrow> array3" where
  "slice1 a i = take 1 (drop i a)"

definition np_log_plus1 :: "(npfloat \<Rightarrow> npfloat) \<Rightarrow> array3 \<Rightarrow> array3" where
  "np_log_plus1 np_log a = map (map (map (\<lambda>x. np_log (float32_add x (Finite 1))))) a"

text \<open>
  \<^verbatim>\<open>(screen[i] == j).nonzero()\<close>: the integer \<open>j\<close> is compared as a
  single-precision number; the comparison gives a boolean array, and \<^verbatim>\<open>nonzero\<close>
  the row indices and the column indices of its true entries, in row-major order.
\<close>

definition eq_mask :: "array2 \<Rightarrow> nat \<Rightarrow> bool list list" where
  "eq_mask m j = map (map (\<lambda>x. np_eq x (float32_round (real j)))) m"

definition nonzero :: "bool list list \<Rightarrow> nat list \<times> nat list" where
  "nonzero m =
     (let ps = concat (map (\<lambda>y. map (\<lambda>x. (y, x)) (filter (\<lambda>x. m ! y ! x) [0..<length (m ! y)]))
                         [0..<length m])
      in (map fst ps, map snd ps))"

text \<open>
  \<^verbatim>\<open>layer[j, indy, indx] = 1\<close>: one store per index pair. The pairs come from an
  array with the extents of \<open>layer[j]\<close>, so every store is in range.
\<close>

definition setitem3 :: "array3 \<Rightarrow> nat \<Rightarrow> nat list \<Rightarrow> nat list \<Rightarrow> npfloat \<Rightarrow> array3" where
  "setitem3 layer j indy indx v =
     fold (\<lambda>(y, x) l. l[j := (l ! j)[y := (l ! j ! y)[x := v]]]) (zip indy indx) layer"

fun category_loop :: "nat list \<Rightarrow> array2 \<Rightarrow> array3 \<Rightarrow> array3" where
  "category_loop [] m layer = layer"
| "category_loop (j # js) m layer =
     (case nonzero (eq_mask m j) of
        (indy, indx) \<Rightarrow> category_loop js m (setitem3 layer j indy indx (Finite 1)))"

text \<open>
  The loop over \<^verbatim>\<open>enumerate(features.SCREEN_FEATURES)\<close>, appending one block of
  channels per layer. It runs after the assertion, so \<open>i\<close> is below the number of
  layers of the array and \<^verbatim>\<open>screen[i]\<close> is in range.
\<close>

fun feature_loop ::
  "(npfloat \<Rightarrow> npfloat) \<Rightarrow> (nat \<times> feature) list \<Rightarrow> array3 \<Rightarrow> array3 list \<Rightarrow> array3 list" where
  "feature_loop np_log [] a layers = layers"
| "feature_loop np_log ((i, f) # rest) a layers =
     (if type f = SCALAR
      then feature_loop np_log rest a (layers @ [np_log_plus1 np_log (slice1 a i)])
      else feature_loop np_log rest a
             (layers @ [category_loop [0..<scale f] (a ! i)
                          (np_zeros3 (scale f) (shape1 a) (shape2 a))]))"

text \<open>
  \<^verbatim>\<open>np.concatenate(layers, axis=0)\<close> raises ValueError on an empty list. Every block
  built above has the row and column extents of the input, so the extents always agree.
\<close>

definition np_concatenate :: "array3 list \<Rightarrow> error + array3" where
  "np_concatenate layers = (if layers = [] then Inl ValueError else Inr (concat layers))"

text \<open>
  \<^verbatim>\<open>_preprocess_screen\<close> and \<^verbatim>\<open>_preprocess_minimap\<close>: the cast to
  \<^verbatim>\<open>float32\<close>, the assertion on the number of layers, the loop, the concatenation.
\<close>

definition preprocess_screen ::
  "(npfloat \<Rightarrow> npfloat) \<Rightarrow> feature list \<Rightarrow> array3 \<Rightarrow> error + array3" where
  "preprocess_screen np_log SCREEN_FEATURES raw =
     (let a = np_array_float32 raw
      in if length a \<noteq> length SCREEN_FEATURES then Inl AssertionError
         else np_concatenate (feature_loop np_log (enumerate 0 SCREEN_FEATURES) a []))"

definition preprocess_minimap ::
  "(npfloat \<Rightarrow> npfloat) \<Rightarrow> feature list \<Rightarrow> array3 \<Rightarrow> error + array3" where
  "preprocess_minimap np_log MINIMAP_FEATURES raw =
     (let a = np_array_float32 raw
      in if length a \<noteq> length MINIMAP_FEATURES then Inl AssertionError
         else np_concatenate (feature_loop np_log (enumerate 0 MINIMAP_FEATURES) a []))"

text \<open>The properties \<^verbatim>\<open>screen_channels\<close> and \<^verbatim>\<open>minimap_channels\<close>.\<close>

fun channels_loop :: "(nat \<times> feature) list \<Rightarrow> nat \<Rightarrow> nat" where
  "channels_loop [] channels = channels"
| "channels_loop ((i, f) # rest) channels =
     (if type f = SCALAR then channels_loop rest (channels + 1)
      else channels_loop rest (channels + scale f))"

definition screen_channels :: "feature list \<Rightarrow> nat" where
  "screen_channels SCREEN_FEATURES = channels_loop (enumerate 0 SCREEN_FEATURES) 0"

definition minimap_channels :: "feature list \<Rightarrow> nat" where
  "minimap_channels MINIMAP_FEATURES = channels_loop (enumerate 0 MINIMAP_FEATURES) 0"

text \<open>
  The observation is a dictionary; the adapter reads three keys of it. A key that is
  absent is \<open>None\<close> and reading it raises KeyError.
  \<^verbatim>\<open>np.expand_dims(screen, 0)\<close> wraps the array in a leading axis of length 1.
\<close>

record observation =
  screen :: "array3 option"
  minimap :: "array3 option"
  available_actions :: "int list option"

definition get_screen ::
  "(npfloat \<Rightarrow> npfloat) \<Rightarrow> feature list \<Rightarrow> observation \<Rightarrow> error + array4" where
  "get_screen np_log SCREEN_FEATURES obs =
     (case screen obs of
        None \<Rightarrow> Inl KeyError
      | Some a \<Rightarrow>
          (case preprocess_screen np_log SCREEN_FEATURES a of
             Inl e \<Rightarrow> Inl e
           | Inr t \<Rightarrow> Inr [t]))"

definition get_minimap ::
  "(npfloat \<Rightarrow> npfloat) \<Rightarrow> feature list \<Rightarrow> observation \<Rightarrow> error + array4" where
  "get_minimap np_log MINIMAP_FEATURES obs =
     (case minimap obs of
        None \<Rightarrow> Inl KeyError
      | Some a \<Rightarrow>
          (case preprocess_minimap np_log MINIMAP_FEATURES a of
             Inl e \<Rightarrow> Inl e
           | Inr t \<Rightarrow> Inr [t]))"

definition get_available_actions :: "handler \<Rightarrow> observation \<Rightarrow> error + real list" where
  "get_available_actions h obs =
     (case available_actions obs of
        None \<Rightarrow> Inl KeyError
      | Some ids \<Rightarrow> preprocess_available_actions h ids)"

definition get_info :: "handler \<Rightarrow> observation \<Rightarrow> error + real list" where
  "get_info h obs = get_available_actions h obs"

section \<open>The one-hot helper\<close>

text \<open>
  \<^verbatim>\<open>one_hot(indices, depth, dtype)\<close> of \<^verbatim>\<open>rl/utils/np_ext.py\<close> is
  \<^verbatim>\<open>np.eye(depth, dtype=dtype)[indices.astype(int)]\<close>. The index array may have any
  number of axes, so it is a tree: a scalar, or the list of its sub-arrays along the
  first axis.
\<close>

datatype 'a ndarray = Scalar 'a | Array "'a ndarray list"

text \<open>\<^verbatim>\<open>np.eye\<close>: the identity matrix, as the list of its rows.\<close>

definition np_eye :: "nat \<Rightarrow> real list list" where
  "np_eye n = map (\<lambda>r. map (\<lambda>c. if r = c then 1 else 0) [0..<n]) [0..<n]"

text \<open>\<^verbatim>\<open>astype(int)\<close> on a float array truncates towards zero.\<close>

definition astype_int :: "real \<Rightarrow> int" where
  "astype_int x = (if 0 \<le> x then \<lfloor>x\<rfloor> else \<lceil>x\<rceil>)"

text \<open>
  Indexing the matrix with an integer array puts the row chosen by each index in the
  place of that index; an index outside \<open>[-depth, depth)\<close> raises IndexError.
  \<open>sequence\<close> collects the results along one axis and keeps the first error.
\<close>

fun sequence :: "(error + 'a) list \<Rightarrow> error + 'a list" where
  "sequence [] = Inr []"
| "sequence (Inl e # rs) = Inl e"
| "sequence (Inr v # rs) = (case sequence rs of Inl e \<Rightarrow> Inl e | Inr vs \<Rightarrow> Inr (v # vs))"

fun take_rows :: "real list list \<Rightarrow> int ndarray \<Rightarrow> error + real ndarray" where
  "take_rows m (Scalar i) =
     (case getitem m i of Inl e \<Rightarrow> Inl e | Inr row \<Rightarrow> Inr (Array (map Scalar row)))"
| "take_rows m (Array xs) =
     (case sequence (map (take_rows m) xs) of Inl e \<Rightarrow> Inl e | Inr ys \<Rightarrow> Inr (Array ys))"

text \<open>\<^verbatim>\<open>np.eye\<close> refuses a negative size with ValueError.\<close>

definition one_hot :: "real ndarray \<Rightarrow> int \<Rightarrow> error + real ndarray" where
  "one_hot indices depth =
     (if depth < 0 then Inl ValueError
      else take_rows (np_eye (nat depth)) (map_ndarray astype_int indices))"

text \<open>
  The shape of an array, as a predicate (an array with an empty axis has every shape
  that agrees up to that axis), and the element at a full index.
\<close>

fun has_shape :: "nat list \<Rightarrow> 'a ndarray \<Rightarrow> bool" where
  "has_shape s (Scalar v) = (s = [])"
| "has_shape s (Array xs) =
     (case s of [] \<Rightarrow> False | n # s' \<Rightarrow> length xs = n \<and> list_all (has_shape s') xs)"

fun item :: "'a ndarray \<Rightarrow> nat list \<Rightarrow> 'a option" where
  "item (Scalar v) [] = Some v"
| "item (Scalar v) (i # p) = None"
| "item (Array xs) [] = None"
| "item (Array xs) (i # p) = (if i < length xs then item (xs ! i) p else None)"

section \<open>Auxiliary definitions and example data\<close>

text \<open>
  One store of \<open>setitem3\<close>, one block of channels of \<open>feature_loop\<close> and the number of
  channels of one layer, named so that the lemmas below can speak of them.
\<close>

definition store :: "nat \<Rightarrow> npfloat \<Rightarrow> nat \<times> nat \<Rightarrow> array3 \<Rightarrow> array3" where
  "store j v = (\<lambda>(y, x) l. l[j := (l ! j)[y := (l ! j ! y)[x := v]]])"

definition width :: "feature \<Rightarrow> nat" where
  "width f = (if type f = SCALAR then 1 else scale f)"

definition block :: "(npfloat \<Rightarrow> npfloat) \<Rightarrow> array3 \<Rightarrow> nat \<times> feature \<Rightarrow> array3" where
  "block np_log a = (\<lambda>(i, f).
     if type f = SCALAR then np_log_plus1 np_log (slice1 a i)
     else category_loop [0..<scale f] (a ! i) (np_zeros3 (scale f) (shape1 a) (shape2 a)))"

text \<open>What \<open>take_rows\<close> returns when every index is in range.\<close>

primrec expand :: "real list list \<Rightarrow> int ndarray \<Rightarrow> real ndarray" where
  "expand m (Scalar i) = Array (map Scalar (m ! nat i))"
| "expand m (Array xs) = Array (map (expand m) xs)"

text \<open>
  A vocabulary of three entries (no slot; a flag and a minimap point; two screen
  points around a flag, as the simulator's rectangle selection has), a handler for it
  at resolution 8, and a catalog with one scalar and one three-valued categorical layer
  with a 2 by 2 observation whose last category value, 7, is out of range.
  A second observation of the same shape has larger scalar values. Two observations
  of one pixel follow: one under a three-valued categorical layer holding
  \<open>1 + 2^-30\<close>, which is no integer and rounds to 1 in single precision, and one under
  a scalar layer holding \<open>2^-30\<close>, whose sum with 1 rounds to 1.
  \<open>example_log\<close> is one possible library logarithm, the correctly rounded one.
\<close>

definition example_FUNCTIONS :: "sc2_function list" where
  "example_FUNCTIONS =
     [\<lparr>args = []\<rparr>,
      \<lparr>args = [\<lparr>name = ''queued''\<rparr>, \<lparr>name = ''minimap''\<rparr>]\<rparr>,
      \<lparr>args = [\<lparr>name = ''screen''\<rparr>, \<lparr>name = ''select_add''\<rparr>, \<lparr>name = ''screen2''\<rparr>]\<rparr>]"

definition example_handler :: handler where
  "example_handler =
     \<lparr>num_action = 3, screen_resolution = 8, minimap_resolution = 8,
      non_spatial_actions = [True, False, False]\<rparr>"

definition example_cfg :: "string \<rightharpoonup> profile" where
  "example_cfg = [''dev'' \<mapsto> \<lparr>step_mul = 8, resl = 8\<rparr>, ''test'' \<mapsto> \<lparr>step_mul = 8, resl = 8\<rparr>]"

definition example_FEATURES :: "feature list" where
  "example_FEATURES = [\<lparr>type = SCALAR, scale = 256\<rparr>, \<lparr>type = CATEGORICAL, scale = 3\<rparr>]"

definition example_map :: array3 where
  "example_map =
     [[[Finite 0, Finite 2], [Finite 5, Finite 1]],
      [[Finite 0, Finite 2], [Finite 1, Finite 7]]]"

definition example_offgrid_FEATURES :: "feature list" where
  "example_offgrid_FEATURES = [\<lparr>type = CATEGORICAL, scale = 3\<rparr>]"

definition example_offgrid_map :: array3 where
  "example_offgrid_map = [[[Finite (1 + 1 / 2 ^ 30)]]]"


definition example_scalar_FEATURES :: "feature list" where
  "example_scalar_FEATURES = [\<lparr>type = SCALAR, scale = 256\<rparr>]"

definition example_tiny_map :: array3 where
  "example_tiny_map = [[[Finite (1 / 2 ^ 30)]]]"

definition example_log :: "npfloat \<Rightarrow> npfloat" where
  "example_log v =
     (case v of
        Finite x \<Rightarrow> if 0 < x then float32_round (ln x) else if x = 0 then MinusInf else NaN
      | PlusInf \<Rightarrow> PlusInf | MinusInf \<Rightarrow> NaN | NaN \<Rightarrow> NaN)"

text \<open>An observation holding the example map under both keys, and a 2 by 2 index array.\<close>

definition example_observation :: observation where
  "example_observation =
     \<lparr>screen = Some example_map, minimap = Some example_map, available_actions = Some [0, 2]\<rparr>"

definition example_indices :: "real ndarray" where
  "example_indices = Array [Array [Scalar 0, Scalar 2], Array [Scalar 1, Scalar 1]]"

section \<open>Properties of the action adapter\<close>

subsection \<open>Indexing and the argument loop\<close>

lemma build_args_map:
  "build_args slots tp acc =
     acc @ map (\<lambda>arg. if name arg \<in> set spatial_names then tp else [0]) slots"
  by (induction slots arbitrary: acc) simp_all

lemma at00_single: "at00 [[v]] = Inr v"
  by (simp add: at00_def getitem_def norm_index_def)

lemma getitem_in_range:
  "0 \<le> i \<Longrightarrow> i < int (length xs) \<Longrightarrow> getitem xs i = Inr (xs ! nat i)"
  by (simp add: getitem_def norm_index_def)

subsection \<open>The indexed store of the availability vector\<close>

lemma set_items_spec:
  "\<forall>i\<in>set S. 0 \<le> i \<and> i < int (length a) \<Longrightarrow>
   \<exists>a'. set_items a S v = Inr a' \<and> length a' = length a \<and>
        (\<forall>k<length a. a' ! k = (if int k \<in> set S then v else a ! k))"
proof (induction S arbitrary: a)
  case Nil
  then show ?case by simp
next
  case (Cons i S)
  let ?b = "a[nat i := v]"
  from Cons.prems have ir: "0 \<le> i" "i < int (length a)" by simp_all
  from Cons.prems have "\<forall>j\<in>set S. 0 \<le> j \<and> j < int (length ?b)" by simp
  from Cons.IH[OF this] obtain a' where
    a': "set_items ?b S v = Inr a'" "length a' = length ?b"
        "\<forall>k<length ?b. a' ! k = (if int k \<in> set S then v else ?b ! k)" by blast
  have step: "set_items a (i # S) v = Inr a'"
    using ir a'(1) by (simp add: norm_index_def)
  have "\<forall>k<length a. a' ! k = (if int k \<in> set (i # S) then v else a ! k)"
  proof (intro allI impI)
    fix k assume k: "k < length a"
    show "a' ! k = (if int k \<in> set (i # S) then v else a ! k)"
    proof (cases "int k = i")
      case True
      then have "nat i = k" by simp
      with a'(3) k True show ?thesis by auto
    next
      case False
      then have "nat i \<noteq> k" using ir by auto
      with a'(3) k False show ?thesis by auto
    qed
  qed
  with step a'(2) show ?case by auto
qed

lemma set_items_map:
  assumes "\<forall>i\<in>set S. 0 \<le> i \<and> i < int (length a)"
  shows "set_items a S v = Inr (map (\<lambda>k. if int k \<in> set S then v else a ! k) [0..<length a])"
proof -
  from set_items_spec[OF assms] obtain a' where
    a': "set_items a S v = Inr a'" "length a' = length a"
        "\<forall>k<length a. a' ! k = (if int k \<in> set S then v else a ! k)" by blast
  have "a' = map (\<lambda>k. if int k \<in> set S then v else a ! k) [0..<length a]"
    by (rule nth_equalityI) (use a' in simp_all)
  with a'(1) show ?thesis by simp
qed

subsection \<open>The classification computed at construction\<close>

lemma scan_args_spec:
  "func_id < length nsa \<Longrightarrow>
   scan_args slots func_id nsa =
     (if \<exists>arg\<in>set slots. name arg \<in> set spatial_names then nsa[func_id := False] else nsa)"
  by (induction slots) auto

lemma scan_args_length: "length (scan_args slots func_id nsa) = length nsa"
  by (induction slots) auto

lemma nonspatial_loop_length: "length (nonspatial_loop efs nsa) = length nsa"
  by (induction efs nsa rule: nonspatial_loop.induct) (auto simp: scan_args_length)

lemma nonspatial_loop_spec:
  "\<forall>(i, f)\<in>set efs. i < length nsa \<Longrightarrow> distinct (map fst efs) \<Longrightarrow> k < length nsa \<Longrightarrow>
   nonspatial_loop efs nsa ! k =
     (nsa ! k \<and> \<not> (\<exists>f. (k, f) \<in> set efs \<and> (\<exists>arg\<in>set (args f). name arg \<in> set spatial_names)))"
proof (induction efs nsa rule: nonspatial_loop.induct)
  case (1 nsa)
  then show ?case by simp
next
  case (2 func_id func rest nsa)
  let ?nsa' = "scan_args (args func) func_id nsa"
  have len: "length ?nsa' = length nsa" by (rule scan_args_length)
  from "2.prems" have fid: "func_id < length nsa" by auto
  have a: "\<forall>(i, f)\<in>set rest. i < length ?nsa'" using "2.prems"(1) len by auto
  have b: "distinct (map fst rest)" using "2.prems"(2) by simp
  have c: "k < length ?nsa'" using "2.prems"(3) len by simp
  have nk: "?nsa' ! k = (nsa ! k \<and> \<not> (k = func_id \<and> (\<exists>arg\<in>set (args func). name arg \<in> set spatial_names)))"
    using fid "2.prems"(3) by (auto simp: scan_args_spec nth_list_update)
  have notin: "\<And>f. (func_id, f) \<notin> set rest" using "2.prems"(2) by (auto simp: image_iff)
  show ?case
    unfolding nonspatial_loop.simps "2.IH"[OF a b c] nk
    using notin by auto
qed

text \<open>
  The list built by \<^verbatim>\<open>_get_nonspatial_actions\<close> holds, at every identifier, whether
  the entry has no spatial slot.
\<close>

lemma get_nonspatial_actions_spec:
  assumes "k < length FUNCTIONS"
  shows "get_nonspatial_actions FUNCTIONS (length FUNCTIONS) ! k =
           (\<forall>arg\<in>set (args (FUNCTIONS ! k)). name arg \<notin> set spatial_names)"
proof -
  have a: "\<forall>(i, f)\<in>set (enumerate 0 FUNCTIONS). i < length (replicate (length FUNCTIONS) True)"
    by (auto simp: in_set_enumerate_eq)
  have b: "distinct (map fst (enumerate 0 FUNCTIONS))" by simp
  have c: "k < length (replicate (length FUNCTIONS) True)" using assms by simp
  have m: "\<And>f. ((k, f) \<in> set (enumerate 0 FUNCTIONS)) = (f = FUNCTIONS ! k)"
    using assms by (auto simp: in_set_enumerate_eq)
  show ?thesis
    unfolding get_nonspatial_actions_def nonspatial_loop_spec[OF a b c]
    using assms by (simp add: m)
qed

lemma get_nonspatial_actions_length:
  "length (get_nonspatial_actions FUNCTIONS n) = n"
  by (simp add: get_nonspatial_actions_def nonspatial_loop_length)

subsection \<open>Claims about the action adapter\<close>

text \<open>
  C4. With a positive resolution \<open>R\<close> and a flat index \<open>0 \<le> f < R * R\<close>,
  \<^verbatim>\<open>postprocess_action\<close> hands the chosen entry's slots the pair
  \<open>(f mod R, f div R)\<close>, both coordinates lie in \<open>[0, R)\<close>, and the indices \<open>0\<close>,
  \<open>R\<close> and \<open>R * R - 1\<close> decode to \<open>(0, 0)\<close>, \<open>(0, 1)\<close> and \<open>(R - 1, R - 1)\<close>.
\<close>

theorem postprocess_action_decodes_target:
  assumes R: "0 < screen_resolution h"
    and f: "0 \<le> f" "f < screen_resolution h * screen_resolution h"
    and func: "getitem FUNCTIONS act_id = Inr func"
  shows "postprocess_action h FUNCTIONS [[act_id]] [[f]] =
           Inr (FunctionCall act_id
                 (build_args (args func)
                    [f mod screen_resolution h, f div screen_resolution h] []))
         \<and> target_point h f = [f mod screen_resolution h, f div screen_resolution h]
         \<and> 0 \<le> f mod screen_resolution h \<and> f mod screen_resolution h < screen_resolution h
         \<and> 0 \<le> f div screen_resolution h \<and> f div screen_resolution h < screen_resolution h
         \<and> target_point h 0 = [0, 0]
         \<and> target_point h (screen_resolution h) = [0, 1]
         \<and> target_point h (screen_resolution h * screen_resolution h - 1) =
             [screen_resolution h - 1, screen_resolution h - 1]"
proof -
  let ?R = "screen_resolution h"
  have tp: "target_point h f = [f mod ?R, f div ?R]"
    using R by (simp add: target_point_def np_mod_def np_floordiv_def)
  have call: "postprocess_action h FUNCTIONS [[act_id]] [[f]] =
           Inr (FunctionCall act_id (build_args (args func) [f mod ?R, f div ?R] []))"
    using func tp by (simp add: postprocess_action_def at00_single)
  have m: "0 \<le> f mod ?R" "f mod ?R < ?R" using R by simp_all
  have d0: "0 \<le> f div ?R" using R f(1) by (simp add: pos_imp_zdiv_nonneg_iff)
  have "?R * (f div ?R) \<le> f" using m(1) mult_div_mod_eq[of ?R f] by linarith
  with f(2) have "?R * (f div ?R) < ?R * ?R" by linarith
  with R have d1: "f div ?R < ?R" by (simp add: mult_less_cancel_left_pos)
  have z: "target_point h 0 = [0, 0]"
    using R by (simp add: target_point_def np_mod_def np_floordiv_def)
  have r: "target_point h ?R = [0, 1]"
    using R by (simp add: target_point_def np_mod_def np_floordiv_def)
  have e: "?R * ?R - 1 = ?R * (?R - 1) + (?R - 1)" by (simp add: algebra_simps)
  have lm: "(?R * ?R - 1) mod ?R = ?R - 1"
    by (rule int_mod_pos_eq[OF e]) (use R in simp_all)
  have ld: "(?R * ?R - 1) div ?R = ?R - 1"
    by (rule int_div_pos_eq[OF e]) (use R in simp_all)
  have l: "target_point h (?R * ?R - 1) = [?R - 1, ?R - 1]"
    using R lm ld by (simp add: target_point_def np_mod_def np_floordiv_def)
  from call tp m d0 d1 z r l show ?thesis by simp
qed

theorem postprocess_action_decodes_target_witness:
  "0 < screen_resolution example_handler
   \<and> (0::int) \<le> 35 \<and> 35 < screen_resolution example_handler * screen_resolution example_handler
   \<and> getitem example_FUNCTIONS 1 = Inr \<lparr>args = [\<lparr>name = ''queued''\<rparr>, \<lparr>name = ''minimap''\<rparr>]\<rparr>
   \<and> postprocess_action example_handler example_FUNCTIONS [[1]] [[35]] =
       Inr (FunctionCall 1 [[0], [3, 4]])
   \<and> target_point example_handler 35 = [3, 4]
   \<and> target_point example_handler 0 = [0, 0]
   \<and> target_point example_handler 8 = [0, 1]
   \<and> target_point example_handler 63 = [7, 7]"
proof -
  have a: "0 < screen_resolution example_handler" by (simp add: example_handler_def)
  have b: "(0::int) \<le> 35" by simp
  have c: "35 < screen_resolution example_handler * screen_resolution example_handler"
    by (simp add: example_handler_def)
  have d: "getitem example_FUNCTIONS 1 = Inr \<lparr>args = [\<lparr>name = ''queued''\<rparr>, \<lparr>name = ''minimap''\<rparr>]\<rparr>"
    by (simp add: example_FUNCTIONS_def getitem_def norm_index_def)
  have r: "screen_resolution example_handler = 8" by (simp add: example_handler_def)
  show ?thesis
    using a c d postprocess_action_decodes_target[OF a b c d]
    by (simp add: r spatial_names_def)
qed

text \<open>
  C5. For a sequence \<open>S\<close> of identifiers in \<open>[0, num_action)\<close>, empty or with
  duplicates, \<^verbatim>\<open>_preprocess_available_actions\<close> returns the vector of length
  \<open>num_action\<close> with 1 at the indices that occur in \<open>S\<close> and 0 elsewhere; removing
  the duplicates of \<open>S\<close> does not change the result.
\<close>

theorem preprocess_available_actions_mask:
  assumes "\<forall>a\<in>set S. 0 \<le> a \<and> a < int (num_action h)"
  shows "preprocess_available_actions h S =
           Inr (map (\<lambda>i. if int i \<in> set S then 1 else 0) [0..<num_action h])
         \<and> preprocess_available_actions h (remdups S) = preprocess_available_actions h S"
proof -
  have a: "\<forall>i\<in>set S. 0 \<le> i \<and> i < int (length (replicate (num_action h) (0::real)))"
    using assms by simp
  have b: "\<forall>i\<in>set (remdups S). 0 \<le> i \<and> i < int (length (replicate (num_action h) (0::real)))"
    using assms by simp
  have m: "map (\<lambda>k. if int k \<in> set S then 1 else replicate (num_action h) (0::real) ! k) [0..<num_action h]
         = map (\<lambda>i. if int i \<in> set S then 1 else 0) [0..<num_action h]"
    by simp
  show ?thesis
    unfolding preprocess_available_actions_def set_items_map[OF a] set_items_map[OF b]
    using m by simp
qed

theorem preprocess_available_actions_mask_witness:
  "preprocess_available_actions example_handler [2, 0, 2] = Inr [1, 0, 1]
   \<and> preprocess_available_actions example_handler (remdups [2, 0, 2]) = Inr [1, 0, 1]
   \<and> preprocess_available_actions example_handler [] = Inr [0, 0, 0]"
proof -
  have h: "\<forall>a\<in>set [2, 0, 2::int]. 0 \<le> a \<and> a < int (num_action example_handler)"
    by (simp add: example_handler_def)
  have e: "\<forall>a\<in>set ([]::int list). 0 \<le> a \<and> a < int (num_action example_handler)"
    by simp
  have u: "[0..<3] = [0, 1, 2]" by (simp add: upt_rec)
  show ?thesis
    using preprocess_available_actions_mask[OF h] preprocess_available_actions_mask[OF e]
    by (simp add: example_handler_def u)
qed

text \<open>
  C6. For an identifier of the vocabulary, \<^verbatim>\<open>postprocess_action\<close> returns the call
  whose argument list has, slot by slot in declared order, the decoded pair where the
  slot is named screen, minimap or screen2 and the placeholder \<open>[0]\<close> elsewhere.
\<close>

theorem postprocess_action_argument_slots:
  assumes "0 \<le> act_id" and "act_id < int (length FUNCTIONS)"
  shows "postprocess_action h FUNCTIONS [[act_id]] [[target]] =
           Inr (FunctionCall act_id
                 (map (\<lambda>arg. if name arg \<in> {''screen'', ''minimap'', ''screen2''}
                             then target_point h target else [0])
                      (args (FUNCTIONS ! nat act_id))))"
  using assms
  by (simp add: postprocess_action_def at00_single getitem_in_range build_args_map
      spatial_names_def)

theorem postprocess_action_argument_slots_witness:
  "(0::int) \<le> 2 \<and> 2 < int (length example_FUNCTIONS)
   \<and> postprocess_action example_handler example_FUNCTIONS [[2]] [[35]] =
       Inr (FunctionCall 2 [[3, 4], [0], [3, 4]])"
proof -
  have a: "(0::int) \<le> 2" by simp
  have b: "2 < int (length example_FUNCTIONS)" by (simp add: example_FUNCTIONS_def)
  show ?thesis
    using a b postprocess_action_argument_slots[OF a b, of example_handler 35]
    by (simp add: example_FUNCTIONS_def example_handler_def target_point_def
        np_mod_def np_floordiv_def)
qed

text \<open>
  C7. The handler built for the example vocabulary holds the right classification
  (the entry without slots is non-spatial, the other two are spatial), but
  \<^verbatim>\<open>is_nonspatial_action\<close> does not return it: the lookup raises TypeError, for
  identifier 0 as for every other.
\<close>

theorem is_nonspatial_action_raises:
  "init_handler example_FUNCTIONS example_cfg ''dev'' = Inr example_handler
   \<and> non_spatial_actions example_handler = [True, False, False]
   \<and> is_nonspatial_action example_handler 0 = Inl TypeError"
  by (simp add: init_handler_def example_cfg_def example_handler_def example_FUNCTIONS_def
      get_nonspatial_actions_def enumerate_eq_zip upt_rec spatial_names_def
      is_nonspatial_action_def call_list_def)

section \<open>Properties of the map transformer\<close>

subsection \<open>Single-precision rounding\<close>

text \<open>
  Rounding leaves every natural number below \<open>2^24\<close> unchanged, and it is monotone on
  the non-negative reals: within one binade the spacing is fixed, and the rounded value of
  a binade never leaves it.
\<close>

lemma round_half_even_of_int: "round_half_even (of_int n) = n"
  by (simp add: round_half_even_def)



lemma exp_search_below: "exp_search x n = - 126 \<or> 2 powi (exp_search x n) \<le> x"
  by (induction n) auto



lemma exp_search_eq:
  "- 126 \<le> e \<Longrightarrow> e \<le> int n - 126 \<Longrightarrow> 2 powi e \<le> x \<Longrightarrow> x < 2 powi (e + 1) \<Longrightarrow>
   exp_search x n = e"
proof (induction n)
  case 0
  then show ?case by simp
next
  case (Suc n)
  show ?case
  proof (cases "e = int n - 125")
    case True
    with Suc.prems show ?thesis by simp
  next
    case False
    with Suc.prems have le: "e \<le> int n - 126" by simp
    then have "(2::real) powi (e + 1) \<le> 2 powi (int n - 125)"
      by (intro power_int_increasing) simp_all
    with Suc.prems have n: "\<not> 2 powi (int n - 125) \<le> x" by simp
    from Suc.IH[OF Suc.prems(1) le Suc.prems(3,4)] n show ?thesis by simp
  qed
qed


lemma float32_exponent_below:
  "float32_exponent x = - 126 \<or> 2 powi (float32_exponent x) \<le> \<bar>x\<bar>"
  unfolding float32_exponent_def by (rule exp_search_below)



lemma float32_exponent_eq:
  "- 126 \<le> e \<Longrightarrow> e \<le> 127 \<Longrightarrow> 2 powi e \<le> \<bar>x\<bar> \<Longrightarrow> \<bar>x\<bar> < 2 powi (e + 1) \<Longrightarrow>
   float32_exponent x = e"
  unfolding float32_exponent_def by (rule exp_search_eq) simp_all

lemma float32_exponent_small:
  assumes "\<bar>x\<bar> < 2 ^ 24"
  shows "float32_exponent x \<le> 23"
proof -
  let ?e = "float32_exponent x"
  from float32_exponent_below[of x] show ?thesis
  proof
    assume "?e = - 126"
    then show ?thesis by simp
  next
    assume "2 powi ?e \<le> \<bar>x\<bar>"
    with assms have "(2::real) powi ?e < 2 powi 24" by simp
    then have "?e < 24" by (rule power_int_le_imp_less_exp[rotated]) simp_all
    then show ?thesis by simp
  qed
qed

lemma powi_nonpos: "(2::real) powi n = 1 / 2 ^ nat (- n)" if "n \<le> 0"
proof (cases "n = 0")
  case True
  then show ?thesis by simp
next
  case False
  with that have "n < 0" by simp
  then have "(2::real) powi n = inverse 2 ^ nat (- n)" by (simp add: power_int_def)
  also have "\<dots> = inverse (2 ^ nat (- n))" by (rule power_inverse)
  also have "\<dots> = 1 / 2 ^ nat (- n)" by (rule inverse_eq_divide)
  finally show ?thesis .
qed

lemma float32_round_nat:
  assumes "k < 2 ^ 24"
  shows "float32_round (real k) = Finite (real k)"
proof -
  let ?e = "float32_exponent (real k)"
  let ?q = "(2::real) powi (?e - 23)"
  have "real k < real (2 ^ 24)" using assms by (simp only: of_nat_less_iff)
  then have k24: "real k < 2 ^ 24" by simp
  then have "\<bar>real k\<bar> < 2 ^ 24" by simp
  then have e: "?e \<le> 23" by (rule float32_exponent_small)
  have q: "?q = 1 / 2 ^ nat (23 - ?e)"
    using e powi_nonpos[of "?e - 23"] by simp
  have d: "real k / ?q = of_int (int k * 2 ^ nat (23 - ?e))"
    by (simp add: q)
  have r: "of_int (round_half_even (real k / ?q)) * ?q = real k"
    unfolding d round_half_even_of_int by (simp add: q)
  have "(2::real) ^ 24 \<le> 2 ^ 128" by (rule power_increasing) simp_all
  with k24 have "real k < 2 ^ 128" by (rule less_le_trans)
  then have "\<not> 2 powi 128 \<le> \<bar>real k\<bar>" by (simp only: power_int_numeral abs_of_nat not_le)
  then show ?thesis
    unfolding float32_round_def float32_nearest_def Let_def r by (simp only: if_False)
qed












text \<open>
  Concrete roundings: small integers are exact; \<open>1 + 2^-30\<close> rounds to 1, so a raw
  \<open>2^-30\<close> and a raw 0 give the same single-precision sum with 1.
\<close>

lemma float32_round_small:
  "float32_round 0 = Finite 0" "float32_round 1 = Finite 1" "float32_round 2 = Finite 2"
  "float32_round 3 = Finite 3" "float32_round 5 = Finite 5" "float32_round 6 = Finite 6"
  "float32_round 7 = Finite 7"
  using float32_round_nat[of 0] float32_round_nat[of 1] float32_round_nat[of 2]
    float32_round_nat[of 3] float32_round_nat[of 5] float32_round_nat[of 6]
    float32_round_nat[of 7]
  by simp_all

lemma float32_round_above_one: "float32_round (1 + 1 / 2 ^ 30) = Finite 1"
proof -
  let ?x = "1 + 1 / 2 ^ 30 :: real"
  have x: "1 \<le> ?x" "?x < 2" by simp_all
  have a: "(2::real) powi 0 \<le> \<bar>?x\<bar>" using x by simp
  have b: "\<bar>?x\<bar> < 2 powi (0 + 1)" using x by simp
  have e: "float32_exponent ?x = 0"
    by (rule float32_exponent_eq[OF _ _ a b]) simp_all
  have q: "(2::real) powi (0 - 23) = 1 / 2 ^ 23" using powi_nonpos[of "- 23"] by simp
  have d: "?x / (1 / 2 ^ 23) = 8388608 + 1 / 128" by simp
  have f: "\<lfloor>8388608 + 1 / 128 :: real\<rfloor> = 8388608"
    by (rule floor_unique) simp_all
  have fr: "(8388608 + 1 / 128 :: real) - of_int 8388608 < 1 / 2" by simp
  have rd: "round_half_even (?x / (1 / 2 ^ 23)) = 8388608"
    unfolding d round_half_even_def Let_def f using fr by (simp only: if_True)
  have r: "of_int 8388608 * (1 / 2 ^ 23) = (1::real)" by simp
  have lt: "\<not> (2::real) powi 128 \<le> \<bar>1\<bar>" by simp
  show ?thesis
    unfolding float32_round_def float32_nearest_def Let_def e q rd r using lt by (simp only: if_False)
qed

lemma above_one_not_nat: "(1 + 1 / 2 ^ 30 :: real) \<notin> \<nat>"
proof
  assume "(1 + 1 / 2 ^ 30 :: real) \<in> \<nat>"
  then obtain n :: nat where n: "(1 + 1 / 2 ^ 30 :: real) = real n" by (auto simp: Nats_def)
  have "1 < real n" "real n < 2" by (simp_all flip: n)
  then have "1 < n" "n < 2" by simp_all
  then show False by simp
qed

lemma float32_round_tiny: "float32_round (1 / 2 ^ 30) = Finite (1 / 2 ^ 30)"
proof -
  let ?x = "1 / 2 ^ 30 :: real"
  have p30: "(2::real) powi (- 30) = 1 / 2 ^ 30" using powi_nonpos[of "- 30"] by simp
  have p29: "(2::real) powi (- 30 + 1) = 1 / 2 ^ 29" using powi_nonpos[of "- 29"] by simp
  have a: "(2::real) powi (- 30) \<le> \<bar>?x\<bar>" unfolding p30 by simp
  have b: "\<bar>?x\<bar> < 2 powi (- 30 + 1)" unfolding p29 by simp
  have e: "float32_exponent ?x = - 30"
    by (rule float32_exponent_eq[OF _ _ a b]) simp_all
  have q: "(2::real) powi (- 30 - 23) = 1 / 2 ^ 53" using powi_nonpos[of "- 53"] by simp
  have d: "?x / (1 / 2 ^ 53) = of_int 8388608" by simp
  have r: "of_int 8388608 * (1 / 2 ^ 53) = (1 / 2 ^ 30 :: real)" by simp
  have lt: "\<not> (2::real) powi 128 \<le> \<bar>1 / 2 ^ 30\<bar>" by simp
  show ?thesis
    unfolding float32_round_def float32_nearest_def Let_def e q d round_half_even_of_int r
    using lt by (simp only: if_False)
qed

lemma scalar_sum_tiny:
  "float32_add (astype_float32 (Finite (1 / 2 ^ 30))) (Finite 1) = Finite 1"
  "float32_add (astype_float32 (Finite 0)) (Finite 1) = Finite 1"
proof -
  have "float32_add (Finite (1 / 2 ^ 30)) (Finite 1) = float32_round (1 + 1 / 2 ^ 30)"
    by (simp only: float32_add.simps add.commute)
  then show "float32_add (astype_float32 (Finite (1 / 2 ^ 30))) (Finite 1) = Finite 1"
    by (simp only: astype_float32_def npfloat.case float32_round_tiny float32_round_above_one)
  show "float32_add (astype_float32 (Finite 0)) (Finite 1) = Finite 1"
    by (simp add: astype_float32_def float32_round_small)
qed

subsection \<open>Shapes, stores and blocks\<close>

lemma has_shape2_iff:
  "has_shape2 h w m = (length m = h \<and> (\<forall>y<h. length (m ! y) = w))"
  by (auto simp: has_shape2_def list_all_length)

lemma has_shape3_iff:
  "has_shape3 l h w a = (length a = l \<and> (\<forall>c<l. has_shape2 h w (a ! c)))"
  by (auto simp: has_shape3_def list_all_length)

lemma nonzero_set:
  assumes "nonzero m = (indy, indx)"
  shows "set (zip indy indx) = {(y, x). y < length m \<and> x < length (m ! y) \<and> m ! y ! x}"
proof -
  let ?ps = "concat (map (\<lambda>y. map (\<lambda>x. (y, x)) (filter (\<lambda>x. m ! y ! x) [0..<length (m ! y)]))
                         [0..<length m])"
  from assms have "indy = map fst ?ps" "indx = map snd ?ps"
    by (simp_all add: nonzero_def Let_def)
  then have "zip indy indx = ?ps" by (simp add: zip_map_fst_snd)
  then show ?thesis by auto
qed

lemma upd2_length:
  "k < length l \<Longrightarrow> length (l[j := (l ! j)[y := r]] ! k) = length (l ! k)"
  by (cases "k = j") simp_all

lemma upd3_length:
  assumes "k < length l" "i < length (l ! k)"
  shows "length (l[j := (l ! j)[y := (l ! j ! y)[x := v]]] ! k ! i) = length (l ! k ! i)"
proof (cases "k = j")
  case True
  then show ?thesis using assms by (cases "i = y") simp_all
next
  case False
  then show ?thesis using assms by simp
qed

lemma upd3_nth:
  assumes "k < length l" "i < length (l ! k)" "n < length (l ! k ! i)"
  shows "l[j := (l ! j)[y := (l ! j ! y)[x := v]]] ! k ! i ! n =
           (if k = j \<and> i = y \<and> n = x then v else l ! k ! i ! n)"
proof (cases "k = j")
  case True
  show ?thesis
  proof (cases "i = y")
    case True
    with \<open>k = j\<close> assms show ?thesis by (cases "n = x") simp_all
  next
    case False
    with \<open>k = j\<close> assms show ?thesis by simp
  qed
next
  case False
  then show ?thesis using assms by simp
qed

lemma store_shape:
  assumes "has_shape3 c h w l"
  shows "has_shape3 c h w (store j v p l)"
proof -
  obtain y x where p: "p = (y, x)" by (cases p)
  have len: "length l = c" "\<forall>k<c. length (l ! k) = h" "\<forall>k<c. \<forall>i<h. length (l ! k ! i) = w"
    using assms by (auto simp: has_shape3_iff has_shape2_iff)
  show ?thesis
    unfolding has_shape3_iff has_shape2_iff p store_def
    using len by (simp add: upd2_length upd3_length)
qed

lemma store_nth:
  assumes "has_shape3 C H W l" "c < C" "y < H" "x < W"
  shows "store j v p l ! c ! y ! x = (if c = j \<and> p = (y, x) then v else l ! c ! y ! x)"
proof -
  obtain y' x' where p: "p = (y', x')" by (cases p)
  have len: "c < length l" "y < length (l ! c)" "x < length (l ! c ! y)"
    using assms by (auto simp: has_shape3_iff has_shape2_iff)
  show ?thesis
    unfolding p store_def using upd3_nth[OF len, of j y' x' v] by auto
qed

lemma fold_store_shape:
  "has_shape3 c h w l \<Longrightarrow> has_shape3 c h w (fold (store j v) ps l)"
  by (induction ps arbitrary: l) (simp_all add: store_shape)

lemma fold_store_nth:
  assumes "has_shape3 C H W l" "c < C" "y < H" "x < W"
  shows "fold (store j v) ps l ! c ! y ! x =
           (if c = j \<and> (y, x) \<in> set ps then v else l ! c ! y ! x)"
  using assms(1)
proof (induction ps arbitrary: l)
  case Nil
  then show ?case by simp
next
  case (Cons p ps)
  have sh: "has_shape3 C H W (store j v p l)" using Cons.prems by (rule store_shape)
  show ?case
    using Cons.IH[OF sh] store_nth[OF Cons.prems assms(2-4), of j v p]
    by auto
qed

lemma setitem3_fold: "setitem3 layer j indy indx v = fold (store j v) (zip indy indx) layer"
  by (simp add: setitem3_def store_def)

lemma category_loop_shape:
  "has_shape3 C H W layer \<Longrightarrow> has_shape3 C H W (category_loop js m layer)"
proof (induction js arbitrary: layer)
  case Nil
  then show ?case by simp
next
  case (Cons j js)
  obtain indy indx where nz: "nonzero (eq_mask m j) = (indy, indx)" by (cases "nonzero (eq_mask m j)")
  have "has_shape3 C H W (setitem3 layer j indy indx (Finite 1))"
    unfolding setitem3_fold using Cons.prems by (rule fold_store_shape)
  from Cons.IH[OF this] show ?case by (simp add: nz)
qed

lemma category_loop_nth:
  assumes m: "has_shape2 H W m" and c: "c < C" and y: "y < H" and x: "x < W"
  shows "has_shape3 C H W layer \<Longrightarrow>
         category_loop js m layer ! c ! y ! x =
           (if c \<in> set js \<and> np_eq (m ! y ! x) (float32_round (real c)) then Finite 1
            else layer ! c ! y ! x)"
proof (induction js arbitrary: layer)
  case Nil
  then show ?case by simp
next
  case (Cons j js)
  obtain indy indx where nz: "nonzero (eq_mask m j) = (indy, indx)" by (cases "nonzero (eq_mask m j)")
  let ?l = "setitem3 layer j indy indx (Finite 1)"
  have sh: "has_shape3 C H W ?l"
    unfolding setitem3_fold using Cons.prems by (rule fold_store_shape)
  have mem: "((y, x) \<in> set (zip indy indx)) = np_eq (m ! y ! x) (float32_round (real j))"
    using m y x by (auto simp: nonzero_set[OF nz] eq_mask_def has_shape2_iff)
  have l: "?l ! c ! y ! x =
             (if c = j \<and> np_eq (m ! y ! x) (float32_round (real j)) then Finite 1
              else layer ! c ! y ! x)"
    unfolding setitem3_fold fold_store_nth[OF Cons.prems c y x] mem by simp
  show ?case
    using Cons.IH[OF sh] l by (auto simp: nz)
qed

lemma feature_loop_map: "feature_loop np_log efs a acc = acc @ map (block np_log a) efs"
  by (induction np_log efs a acc rule: feature_loop.induct) (simp_all add: block_def)

lemma channels_loop_sum:
  "channels_loop efs n = n + sum_list (map (\<lambda>p. width (snd p)) efs)"
  by (induction efs n rule: channels_loop.induct) (simp_all add: width_def)

lemma map_snd_enumerate_fun: "map (\<lambda>p. g (snd p)) (enumerate n xs) = map g xs"
  by (induction xs arbitrary: n) simp_all

lemma screen_channels_sum: "screen_channels FEATURES = sum_list (map width FEATURES)"
  by (simp add: screen_channels_def channels_loop_sum map_snd_enumerate_fun)

lemma minimap_channels_eq: "minimap_channels FEATURES = screen_channels FEATURES"
  by (simp add: minimap_channels_def screen_channels_def)

lemma preprocess_minimap_eq:
  "preprocess_minimap np_log FEATURES a = preprocess_screen np_log FEATURES a"
  by (simp add: preprocess_minimap_def preprocess_screen_def)

lemma np_zeros3_shape: "has_shape3 c h w (np_zeros3 c h w)"
  by (simp add: np_zeros3_def has_shape3_iff has_shape2_iff)

lemma np_zeros3_nth: "c < C \<Longrightarrow> y < H \<Longrightarrow> x < W \<Longrightarrow> np_zeros3 C H W ! c ! y ! x = Finite 0"
  by (simp add: np_zeros3_def)

lemma zeros_like_shape:
  assumes "has_shape3 L H W a" "0 < L"
  shows "has_shape3 c H W (np_zeros3 c (shape1 a) (shape2 a))"
proof -
  from assms obtain l ls where a: "a = l # ls" by (cases a) (auto simp: has_shape3_iff)
  have l: "has_shape2 H W l" using assms(1) by (simp add: a has_shape3_def)
  then have s1: "shape1 a = H" by (simp add: a shape1_def has_shape2_iff)
  show ?thesis
  proof (cases l)
    case Nil
    with l have "H = 0" by (simp add: has_shape2_iff)
    then show ?thesis
      using s1 by (simp add: np_zeros3_def has_shape3_iff has_shape2_iff)
  next
    case (Cons r rs)
    with l have "length r = W" by (auto simp: has_shape2_def)
    then have "shape2 a = W" by (simp add: a Cons shape2_def)
    with s1 show ?thesis by (simp add: np_zeros3_shape)
  qed
qed

lemma block_shape:
  assumes a: "has_shape3 L H W a" and i: "i < L"
  shows "has_shape3 (width f) H W (block np_log a (i, f))"
proof (cases "type f = SCALAR")
  case True
  have len: "length a = L" "\<forall>c<L. has_shape2 H W (a ! c)" using a by (simp_all add: has_shape3_iff)
  have s: "slice1 a i = [a ! i]"
    using i len(1) by (simp add: slice1_def take_Suc_conv_app_nth hd_drop_conv_nth take_Suc)
  have "has_shape2 H W (a ! i)" using len i by simp
  then show ?thesis
    using True by (simp add: block_def width_def s np_log_plus1_def has_shape3_iff has_shape2_iff)
next
  case False
  have "0 < L" using i by simp
  from zeros_like_shape[OF a this] have "has_shape3 (scale f) H W (np_zeros3 (scale f) (shape1 a) (shape2 a))" .
  then show ?thesis
    using False by (simp add: block_def width_def category_loop_shape)
qed


lemma block_categorical_nth:
  assumes a: "has_shape3 L H W a" and i: "i < L" and f: "type f \<noteq> SCALAR"
    and c: "c < scale f" and y: "y < H" and x: "x < W"
  shows "block np_log a (i, f) ! c ! y ! x =
           (if np_eq (a ! i ! y ! x) (float32_round (real c)) then Finite 1 else Finite 0)"
proof -
  have m: "has_shape2 H W (a ! i)" using a i by (simp add: has_shape3_iff)
  have "0 < L" using i by simp
  from zeros_like_shape[OF a this]
  have z: "has_shape3 (scale f) H W (np_zeros3 (scale f) (shape1 a) (shape2 a))" .
  have z0: "np_zeros3 (scale f) (shape1 a) (shape2 a) ! c ! y ! x = Finite 0"
  proof -
    have "length (np_zeros3 (scale f) (shape1 a) (shape2 a) ! c) = H"
         "length (np_zeros3 (scale f) (shape1 a) (shape2 a) ! c ! y) = W"
      using z c y by (auto simp: has_shape3_iff has_shape2_iff)
    then have "shape1 a = H" "shape2 a = W" using c y by (simp_all add: np_zeros3_def)
    then show ?thesis using c y x by (simp add: np_zeros3_nth)
  qed
  show ?thesis
    using f c category_loop_nth[OF m c y x z, of "[0..<scale f]"] z0
    by (simp add: block_def)
qed

lemma concat_nth_offset:
  "i < length xss \<Longrightarrow> c < length (xss ! i) \<Longrightarrow>
   concat xss ! (sum_list (map length (take i xss)) + c) = xss ! i ! c"
proof (induction xss arbitrary: i)
  case Nil
  then show ?case by simp
next
  case (Cons xs xss)
  show ?case
  proof (cases i)
    case 0
    with Cons.prems show ?thesis by (simp add: nth_append)
  next
    case (Suc n)
    with Cons.prems Cons.IH[of n] show ?thesis by (simp add: nth_append add.assoc)
  qed
qed

lemma concat_shape:
  "\<forall>b\<in>set bs. list_all (has_shape2 H W) b \<Longrightarrow>
   has_shape3 (sum_list (map length bs)) H W (concat bs)"
  by (induction bs) (auto simp: has_shape3_def length_concat)

lemma blocks_length:
  assumes "has_shape3 (length FEATURES) H W a"
  shows "map length (map (block np_log a) (enumerate 0 FEATURES)) = map width FEATURES"
proof (rule nth_equalityI)
  show "length (map length (map (block np_log a) (enumerate 0 FEATURES))) = length (map width FEATURES)"
    by simp
next
  fix k assume "k < length (map length (map (block np_log a) (enumerate 0 FEATURES)))"
  then have k: "k < length FEATURES" by simp
  from block_shape[OF assms k, of "FEATURES ! k"]
  have "length (block np_log a (k, FEATURES ! k)) = width (FEATURES ! k)" by (simp add: has_shape3_iff)
  then show "map length (map (block np_log a) (enumerate 0 FEATURES)) ! k = map width FEATURES ! k"
    using k by (simp add: nth_enumerate_eq)
qed

lemma blocks_offset:
  assumes "has_shape3 (length FEATURES) H W a"
  shows "sum_list (map length (take i (map (block np_log a) (enumerate 0 FEATURES)))) =
           screen_channels (take i FEATURES)"
proof -
  have "map length (take i (map (block np_log a) (enumerate 0 FEATURES))) =
          take i (map length (map (block np_log a) (enumerate 0 FEATURES)))"
    by (simp only: take_map)
  also have "\<dots> = map width (take i FEATURES)"
    by (simp only: blocks_length[OF assms] take_map)
  finally show ?thesis by (simp only: screen_channels_sum)
qed

lemma has_shape2_map: "has_shape2 h w (map (map f) m) = has_shape2 h w m"
  by (simp add: has_shape2_def list.pred_map comp_def)

lemma np_array_float32_shape: "has_shape3 l h w (np_array_float32 a) = has_shape3 l h w a"
  by (simp add: np_array_float32_def has_shape3_def list.pred_map comp_def has_shape2_map)

lemma np_array_float32_nth:
  assumes "has_shape3 L H W a" "i < L" "y < H" "x < W"
  shows "np_array_float32 a ! i ! y ! x = astype_float32 (a ! i ! y ! x)"
proof -
  have "length a = L" "length (a ! i) = H" "length (a ! i ! y) = W"
    using assms by (auto simp: has_shape3_iff has_shape2_iff)
  then show ?thesis using assms(2-4) by (simp add: np_array_float32_def)
qed

lemma preprocess_screen_blocks:
  assumes "length raw = length FEATURES" "FEATURES \<noteq> []"
  shows "preprocess_screen np_log FEATURES raw =
           Inr (concat (map (block np_log (np_array_float32 raw)) (enumerate 0 FEATURES)))"
proof -
  from assms(2) have "enumerate 0 FEATURES \<noteq> []" by (cases FEATURES) simp_all
  moreover have "length (np_array_float32 raw) = length FEATURES"
    using assms(1) by (simp add: np_array_float32_def)
  ultimately show ?thesis
    by (simp add: preprocess_screen_def Let_def np_concatenate_def feature_loop_map)
qed

lemma preprocess_screen_empty: "preprocess_screen np_log [] [] = Inl ValueError"
  by (simp add: preprocess_screen_def np_array_float32_def np_concatenate_def)

lemma preprocess_screen_shape:
  assumes raw: "has_shape3 (length FEATURES) H W raw" and ne: "FEATURES \<noteq> []"
  shows "\<exists>t. preprocess_screen np_log FEATURES raw = Inr t \<and>
             has_shape3 (screen_channels FEATURES) H W t"
proof -
  let ?a = "np_array_float32 raw"
  let ?bs = "map (block np_log ?a) (enumerate 0 FEATURES)"
  have a: "has_shape3 (length FEATURES) H W ?a" using raw by (simp only: np_array_float32_shape)
  have len: "length raw = length FEATURES" using raw by (simp add: has_shape3_iff)
  have "\<forall>b\<in>set ?bs. list_all (has_shape2 H W) b"
  proof
    fix b assume "b \<in> set ?bs"
    then obtain k f where kf: "(k, f) \<in> set (enumerate 0 FEATURES)" "b = block np_log ?a (k, f)"
      by auto
    then have "k < length FEATURES" by (simp add: in_set_enumerate_eq)
    from block_shape[OF a this, where f = f and np_log = np_log] show "list_all (has_shape2 H W) b"
      by (simp add: kf(2) has_shape3_def)
  qed
  then have "has_shape3 (sum_list (map length ?bs)) H W (concat ?bs)" by (rule concat_shape)
  moreover have "sum_list (map length ?bs) = screen_channels FEATURES"
    using blocks_offset[OF a, where i = "length FEATURES" and np_log = np_log] by simp
  ultimately show ?thesis
    using preprocess_screen_blocks[OF len ne] by simp
qed

lemma preprocess_screen_pixel:
  assumes raw: "has_shape3 (length FEATURES) H W raw" and i: "i < length FEATURES"
    and c: "c < width (FEATURES ! i)"
  shows "\<exists>t. preprocess_screen np_log FEATURES raw = Inr t \<and>
           t ! (screen_channels (take i FEATURES) + c) =
             block np_log (np_array_float32 raw) (i, FEATURES ! i) ! c"
proof -
  let ?a = "np_array_float32 raw"
  let ?bs = "map (block np_log ?a) (enumerate 0 FEATURES)"
  have a: "has_shape3 (length FEATURES) H W ?a" using raw by (simp only: np_array_float32_shape)
  have len: "length raw = length FEATURES" using raw by (simp add: has_shape3_iff)
  have ne: "FEATURES \<noteq> []" using i by auto
  have bi: "?bs ! i = block np_log ?a (i, FEATURES ! i)" using i by (simp add: nth_enumerate_eq)
  from block_shape[OF a i, where f = "FEATURES ! i" and np_log = np_log]
  have "length (block np_log ?a (i, FEATURES ! i)) = width (FEATURES ! i)"
    by (simp add: has_shape3_iff)
  with c bi have c': "c < length (?bs ! i)" by simp
  have i': "i < length ?bs" using i by simp
  from concat_nth_offset[OF i' c']
  have "concat ?bs ! (screen_channels (take i FEATURES) + c) =
          block np_log ?a (i, FEATURES ! i) ! c"
    by (simp only: blocks_offset[OF a] bi)
  then show ?thesis using preprocess_screen_blocks[OF len ne] by simp
qed

lemma np_eq_Finite: "np_eq (Finite u) (Finite v) = (u = v)"
  by (simp add: np_eq_def)

lemma astype_float32_nat: "k < 2 ^ 24 \<Longrightarrow> astype_float32 (Finite (real k)) = Finite (real k)"
  by (simp add: astype_float32_def float32_round_nat)

lemma preprocess_screen_categorical_pixel:
  assumes a: "has_shape3 (length FEATURES) H W a" and i: "i < length FEATURES"
    and cat: "type (FEATURES ! i) = CATEGORICAL" and y: "y < H" and x: "x < W"
  shows "\<exists>t. preprocess_screen np_log FEATURES a = Inr t \<and>
           (\<forall>c<scale (FEATURES ! i).
              t ! (screen_channels (take i FEATURES) + c) ! y ! x =
                (if np_eq (astype_float32 (a ! i ! y ! x)) (float32_round (real c))
                 then Finite 1 else Finite 0))"
proof -
  let ?a = "np_array_float32 a"
  have ne: "FEATURES \<noteq> []" using i by auto
  have len: "length a = length FEATURES" using a by (simp add: has_shape3_iff)
  have a': "has_shape3 (length FEATURES) H W ?a" using a by (simp only: np_array_float32_shape)
  let ?t = "concat (map (block np_log ?a) (enumerate 0 FEATURES))"
  have t: "preprocess_screen np_log FEATURES a = Inr ?t"
    by (rule preprocess_screen_blocks[OF len ne])
  have ns: "type (FEATURES ! i) \<noteq> SCALAR" using cat by simp
  have px: "?a ! i ! y ! x = astype_float32 (a ! i ! y ! x)"
    by (rule np_array_float32_nth[OF a i y x])
  have "\<forall>c<scale (FEATURES ! i).
          ?t ! (screen_channels (take i FEATURES) + c) ! y ! x =
            (if np_eq (astype_float32 (a ! i ! y ! x)) (float32_round (real c))
             then Finite 1 else Finite 0)"
  proof (intro allI impI)
    fix c assume c: "c < scale (FEATURES ! i)"
    then have cw: "c < width (FEATURES ! i)" using ns by (simp add: width_def)
    from preprocess_screen_pixel[OF a i cw, of np_log] t
    have "?t ! (screen_channels (take i FEATURES) + c) = block np_log ?a (i, FEATURES ! i) ! c"
      by simp
    then show "?t ! (screen_channels (take i FEATURES) + c) ! y ! x =
            (if np_eq (astype_float32 (a ! i ! y ! x)) (float32_round (real c))
             then Finite 1 else Finite 0)"
      using block_categorical_nth[OF a' i ns c y x, of np_log] px by simp
  qed
  with t show ?thesis by blast
qed


lemma np_concatenate_not_assert: "np_concatenate ls \<noteq> Inl AssertionError"
  by (simp add: np_concatenate_def)

subsection \<open>The examples\<close>

lemma example_map_shape: "has_shape3 (length example_FEATURES) 2 2 example_map"
  by (simp add: example_FEATURES_def example_map_def has_shape3_def has_shape2_def)


lemma example_offsets:
  "screen_channels (take 0 example_FEATURES) = 0"
  "screen_channels (take 1 example_FEATURES) = 1"
  "screen_channels example_FEATURES = 4"
  "minimap_channels example_FEATURES = 4"
  by (simp_all add: example_FEATURES_def screen_channels_def minimap_channels_def)

lemma example_layers:
  "type (example_FEATURES ! 0) = SCALAR"
  "type (example_FEATURES ! 1) = CATEGORICAL"
  "scale (example_FEATURES ! 1) = 3"
  "length example_FEATURES = 2"
  by (simp_all add: example_FEATURES_def)

lemma example_upt: "[0..<3] = [0, 1, 2]" "[0..<2] = [0, 1]" "[0..<Suc (Suc 0)] = [0, Suc 0]"
  by (simp_all add: upt_rec numeral_2_eq_2 numeral_3_eq_3)

lemma example_cast:
  "np_array_float32 example_map = example_map"
  "np_array_float32 example_offgrid_map = [[[Finite 1]]]"
proof -
  show "np_array_float32 example_map = example_map"
    by (simp add: np_array_float32_def example_map_def astype_float32_def float32_round_small)
  show "np_array_float32 example_offgrid_map = [[[Finite 1]]]"
    by (simp only: np_array_float32_def example_offgrid_map_def list.map astype_float32_def
        npfloat.case float32_round_above_one)
qed

lemma example_tiny_cast: "np_array_float32 example_tiny_map = example_tiny_map"
  by (simp only: np_array_float32_def example_tiny_map_def list.map astype_float32_def
      npfloat.case float32_round_tiny)

lemma example_tiny_sum: "float32_add (Finite (1 / 2 ^ 30)) (Finite 1) = Finite 1"
  using scalar_sum_tiny(1)
  by (simp only: astype_float32_def npfloat.case float32_round_tiny)

lemma example_nonzero:
  "nonzero (eq_mask [[Finite 0, Finite 2], [Finite 1, Finite 7]] 0) = ([0], [0])"
  "nonzero (eq_mask [[Finite 0, Finite 2], [Finite 1, Finite 7]] (Suc 0)) = ([Suc 0], [0])"
  "nonzero (eq_mask [[Finite 0, Finite 2], [Finite 1, Finite 7]] (Suc (Suc 0))) = ([0], [Suc 0])"
  "nonzero (eq_mask [[Finite 1]] 0) = ([], [])"
  "nonzero (eq_mask [[Finite 1]] (Suc 0)) = ([0], [0])"
  "nonzero (eq_mask [[Finite 1]] (Suc (Suc 0))) = ([], [])"
  using float32_round_small(3)
  by (simp_all add: nonzero_def eq_mask_def example_upt np_eq_def float32_round_small)

text \<open>
  The transformer run on the example: the library logarithm of the scalar layer plus
  one, then the three indicator channels of the categorical layer, none of which is set
  at the pixel holding 7.
\<close>

lemma preprocess_screen_example:
  "preprocess_screen np_log example_FEATURES example_map =
     Inr [[[np_log (Finite 1), np_log (Finite 3)], [np_log (Finite 6), np_log (Finite 2)]],
          [[Finite 1, Finite 0], [Finite 0, Finite 0]],
          [[Finite 0, Finite 0], [Finite 1, Finite 0]],
          [[Finite 0, Finite 1], [Finite 0, Finite 0]]]"
  unfolding preprocess_screen_def Let_def example_cast
  by (simp add: example_FEATURES_def example_map_def np_concatenate_def
      example_upt example_nonzero setitem3_def slice1_def np_log_plus1_def np_zeros3_def
      shape1_def shape2_def numeral_2_eq_2 numeral_3_eq_3 float32_round_small)

text \<open>
  Whatever the library logarithm is, the scalar channel gives a raw \<open>2^-30\<close> and a raw
  0 the same output.
\<close>

lemma scalar_channel_cannot_separate:
  "preprocess_screen np_log example_scalar_FEATURES example_tiny_map =
     preprocess_screen np_log example_scalar_FEATURES [[[Finite 0]]]"
proof -
  have "preprocess_screen np_log example_scalar_FEATURES example_tiny_map =
          Inr [[[np_log (float32_add (Finite (1 / 2 ^ 30)) (Finite 1))]]]"
    unfolding preprocess_screen_def Let_def example_tiny_cast
    unfolding example_tiny_map_def example_scalar_FEATURES_def
    by (simp add: np_concatenate_def slice1_def np_log_plus1_def del: float32_add.simps)
  moreover have "preprocess_screen np_log example_scalar_FEATURES [[[Finite 0]]] =
          Inr [[[np_log (Finite 1)]]]"
    by (simp add: preprocess_screen_def Let_def np_array_float32_def astype_float32_def
        example_scalar_FEATURES_def np_concatenate_def slice1_def np_log_plus1_def
        float32_round_small)
  ultimately show ?thesis by (simp only: example_tiny_sum)
qed



subsection \<open>Claims about the map transformer\<close>

text \<open>
  C1. For a categorical layer \<open>i\<close> of cardinality \<open>C\<close>, at most \<open>2^24\<close>, and a pixel
  whose raw value is an integer \<open>k\<close> in \<open>[0, C)\<close>, \<^verbatim>\<open>_preprocess_screen\<close> and
  \<^verbatim>\<open>_preprocess_minimap\<close> return a tensor whose \<open>C\<close> channels of that layer hold
  at this pixel 1 in channel \<open>k\<close> and 0 in all others, so \<open>k\<close> is the only channel
  with a 1 and is recovered from the expansion. (Single precision holds every integer
  up to \<open>2^24\<close> exactly.)
\<close>

theorem preprocess_screen_one_hot:
  assumes a: "has_shape3 (length FEATURES) H W a" and i: "i < length FEATURES"
    and cat: "type (FEATURES ! i) = CATEGORICAL" and y: "y < H" and x: "x < W"
    and v: "a ! i ! y ! x = Finite (real k)" and k: "k < scale (FEATURES ! i)"
    and bound: "scale (FEATURES ! i) \<le> 2 ^ 24"
  shows "\<exists>t. preprocess_screen np_log FEATURES a = Inr t
           \<and> preprocess_minimap np_log FEATURES a = Inr t
           \<and> (\<forall>c<scale (FEATURES ! i).
                 t ! (screen_channels (take i FEATURES) + c) ! y ! x =
                   (if c = k then Finite 1 else Finite 0))
           \<and> {c. c < scale (FEATURES ! i) \<and>
                  t ! (screen_channels (take i FEATURES) + c) ! y ! x = Finite 1} = {k}"
proof -
  from preprocess_screen_categorical_pixel[OF a i cat y x, of np_log] obtain t where
    t: "preprocess_screen np_log FEATURES a = Inr t"
    and px: "\<forall>c<scale (FEATURES ! i).
              t ! (screen_channels (take i FEATURES) + c) ! y ! x =
                (if np_eq (astype_float32 (a ! i ! y ! x)) (float32_round (real c))
                 then Finite 1 else Finite 0)" by blast
  have k24: "k < 2 ^ 24" using k bound by simp
  have px': "\<forall>c<scale (FEATURES ! i).
              t ! (screen_channels (take i FEATURES) + c) ! y ! x =
                (if c = k then Finite 1 else Finite 0)"
  proof (intro allI impI)
    fix c assume c: "c < scale (FEATURES ! i)"
    then have c24: "c < 2 ^ 24" using bound by simp
    have "np_eq (astype_float32 (a ! i ! y ! x)) (float32_round (real c)) = (c = k)"
      unfolding v astype_float32_nat[OF k24] float32_round_nat[OF c24] np_eq_Finite by auto
    with px c show "t ! (screen_channels (take i FEATURES) + c) ! y ! x =
                (if c = k then Finite 1 else Finite 0)" by simp
  qed
  have "{c. c < scale (FEATURES ! i) \<and>
            t ! (screen_channels (take i FEATURES) + c) ! y ! x = Finite 1} = {k}"
    using px' k by (auto split: if_splits)
  with t px' show ?thesis by (auto simp: preprocess_minimap_eq)
qed

theorem preprocess_screen_one_hot_witness:
  "\<exists>t. preprocess_screen example_log example_FEATURES example_map = Inr t
      \<and> preprocess_minimap example_log example_FEATURES example_map = Inr t
      \<and> example_map ! 1 ! 0 ! 1 = Finite 2
      \<and> t ! 1 ! 0 ! 1 = Finite 0 \<and> t ! 2 ! 0 ! 1 = Finite 0 \<and> t ! 3 ! 0 ! 1 = Finite 1"
proof -
  have i: "1 < length example_FEATURES" by (simp add: example_FEATURES_def)
  have y: "(0::nat) < 2" and x: "(1::nat) < 2" by simp_all
  have v: "example_map ! 1 ! 0 ! 1 = Finite (real 2)" by (simp add: example_map_def)
  have k: "2 < scale (example_FEATURES ! 1)" by (simp add: example_FEATURES_def)
  have b: "scale (example_FEATURES ! 1) \<le> 2 ^ 24" by (simp add: example_FEATURES_def)
  from preprocess_screen_one_hot[OF example_map_shape i example_layers(2) y x v k b,
      of example_log]
  obtain t where t: "preprocess_screen example_log example_FEATURES example_map = Inr t"
      "preprocess_minimap example_log example_FEATURES example_map = Inr t"
    and px: "\<forall>c<scale (example_FEATURES ! 1).
               t ! (screen_channels (take 1 example_FEATURES) + c) ! 0 ! 1 =
                 (if c = 2 then Finite 1 else Finite 0)"
    by blast
  have px': "\<And>c. c < 3 \<Longrightarrow> t ! (1 + c) ! 0 ! 1 = (if c = 2 then Finite 1 else Finite 0)"
    using px by (simp only: example_layers example_offsets)
  have "t ! 1 ! 0 ! 1 = Finite 0" "t ! 2 ! 0 ! 1 = Finite 0" "t ! 3 ! 0 ! 1 = Finite 1"
    using px'[of 0] px'[of 1] px'[of 2] by (simp_all add: numeral_2_eq_2 numeral_3_eq_3)
  with t v show ?thesis by simp
qed

text \<open>
  C2. For an observation map of shape (L, H, W) with L the length of the (non-empty)
  catalog, \<^verbatim>\<open>get_screen\<close> returns a tensor of shape
  (1, \<open>screen_channels\<close>, H, W), and \<^verbatim>\<open>get_minimap\<close> one of shape
  (1, \<open>minimap_channels\<close>, H, W), whatever the values of the map; each channel
  count is the sum over the catalog of 1 for a scalar layer and the scale otherwise.
\<close>

theorem get_screen_shape:
  assumes a: "has_shape3 (length SCREEN_FEATURES) H W a" and sne: "SCREEN_FEATURES \<noteq> []"
    and m: "has_shape3 (length MINIMAP_FEATURES) H' W' m" and mne: "MINIMAP_FEATURES \<noteq> []"
    and oa: "screen obs = Some a" and om: "minimap obs = Some m"
  shows "(\<exists>t. get_screen np_log SCREEN_FEATURES obs = Inr t \<and>
              has_shape4 1 (screen_channels SCREEN_FEATURES) H W t)
       \<and> (\<exists>t. get_minimap np_log MINIMAP_FEATURES obs = Inr t \<and>
              has_shape4 1 (minimap_channels MINIMAP_FEATURES) H' W' t)
       \<and> screen_channels SCREEN_FEATURES =
             (\<Sum>f\<leftarrow>SCREEN_FEATURES. if type f = SCALAR then 1 else scale f)
       \<and> minimap_channels MINIMAP_FEATURES =
             (\<Sum>f\<leftarrow>MINIMAP_FEATURES. if type f = SCALAR then 1 else scale f)"
proof -
  from preprocess_screen_shape[OF a sne, of np_log] obtain t where
    t: "preprocess_screen np_log SCREEN_FEATURES a = Inr t"
       "has_shape3 (screen_channels SCREEN_FEATURES) H W t" by blast
  from preprocess_screen_shape[OF m mne, of np_log] obtain u where
    u: "preprocess_screen np_log MINIMAP_FEATURES m = Inr u"
       "has_shape3 (screen_channels MINIMAP_FEATURES) H' W' u" by blast
  have "get_screen np_log SCREEN_FEATURES obs = Inr [t]"
    using oa t(1) by (simp add: get_screen_def)
  moreover have "has_shape4 1 (screen_channels SCREEN_FEATURES) H W [t]"
    using t(2) by (simp add: has_shape4_def)
  moreover have "get_minimap np_log MINIMAP_FEATURES obs = Inr [u]"
    using om u(1) by (simp add: get_minimap_def preprocess_minimap_eq)
  moreover have "has_shape4 1 (minimap_channels MINIMAP_FEATURES) H' W' [u]"
    using u(2) by (simp add: has_shape4_def minimap_channels_eq)
  moreover have "screen_channels F = (\<Sum>f\<leftarrow>F. if type f = SCALAR then 1 else scale f)" for F
    unfolding screen_channels_sum width_def ..
  ultimately show ?thesis by (simp only: minimap_channels_eq) blast
qed

theorem get_screen_shape_witness:
  "(\<exists>t. get_screen example_log example_FEATURES example_observation = Inr t
        \<and> has_shape4 1 4 2 2 t)
   \<and> (\<exists>t. get_minimap example_log example_FEATURES example_observation = Inr t
        \<and> has_shape4 1 4 2 2 t)
   \<and> screen_channels example_FEATURES = 4 \<and> minimap_channels example_FEATURES = 4"
proof -
  have ne: "example_FEATURES \<noteq> []" by (simp add: example_FEATURES_def)
  have oa: "screen example_observation = Some example_map"
    and om: "minimap example_observation = Some example_map"
    by (simp_all add: example_observation_def)
  from get_screen_shape[OF example_map_shape ne example_map_shape ne oa om, of example_log]
  show ?thesis by (simp add: example_offsets)
qed




text \<open>
  C8. \<^verbatim>\<open>_preprocess_screen\<close> and \<^verbatim>\<open>_preprocess_minimap\<close> fail with
  AssertionError exactly when the number of layers of the input differs from the
  length of the catalog, and \<^verbatim>\<open>get_screen\<close> and \<^verbatim>\<open>get_minimap\<close> hand that
  failure to their caller unchanged.
\<close>

theorem preprocess_screen_assertion:
  "(preprocess_screen np_log SCREEN_FEATURES a = Inl AssertionError) =
     (length a \<noteq> length SCREEN_FEATURES)
   \<and> (preprocess_minimap np_log MINIMAP_FEATURES m = Inl AssertionError) =
     (length m \<noteq> length MINIMAP_FEATURES)
   \<and> (screen obs = Some a \<longrightarrow>
        (get_screen np_log SCREEN_FEATURES obs = Inl AssertionError) =
          (length a \<noteq> length SCREEN_FEATURES))
   \<and> (minimap obs = Some m \<longrightarrow>
        (get_minimap np_log MINIMAP_FEATURES obs = Inl AssertionError) =
          (length m \<noteq> length MINIMAP_FEATURES))"
proof -
  have s: "(preprocess_screen np_log F x = Inl AssertionError) = (length x \<noteq> length F)" for F x
    by (simp add: preprocess_screen_def Let_def np_array_float32_def np_concatenate_not_assert)
  have g: "screen obs = Some a \<Longrightarrow>
        (get_screen np_log SCREEN_FEATURES obs = Inl AssertionError) =
          (length a \<noteq> length SCREEN_FEATURES)"
    using s[of SCREEN_FEATURES a] by (auto simp: get_screen_def split: sum.splits)
  have g': "minimap obs = Some m \<Longrightarrow>
        (get_minimap np_log MINIMAP_FEATURES obs = Inl AssertionError) =
          (length m \<noteq> length MINIMAP_FEATURES)"
    using s[of MINIMAP_FEATURES m]
    by (auto simp: get_minimap_def preprocess_minimap_eq split: sum.splits)
  from s g g' show ?thesis by (simp add: preprocess_minimap_eq)
qed

theorem preprocess_screen_assertion_witness:
  "preprocess_screen example_log example_FEATURES [[[Finite 0]]] = Inl AssertionError
   \<and> preprocess_minimap example_log example_FEATURES [[[Finite 0]]] = Inl AssertionError
   \<and> preprocess_screen example_log example_FEATURES example_map \<noteq> Inl AssertionError
   \<and> get_screen example_log example_FEATURES (example_observation\<lparr>screen := Some [[[Finite 0]]]\<rparr>)
       = Inl AssertionError
   \<and> get_minimap example_log example_FEATURES (example_observation\<lparr>minimap := Some [[[Finite 0]]]\<rparr>)
       = Inl AssertionError
   \<and> get_screen example_log example_FEATURES example_observation \<noteq> Inl AssertionError"
  using preprocess_screen_assertion[of example_log example_FEATURES "[[[Finite 0]]]"
            example_FEATURES "[[[Finite 0]]]"
            "example_observation\<lparr>screen := Some [[[Finite 0]]], minimap := Some [[[Finite 0]]]\<rparr>"]
        preprocess_screen_assertion[of example_log example_FEATURES example_map
            example_FEATURES example_map example_observation]
  by (simp add: example_layers example_observation_def example_map_def get_screen_def
      get_minimap_def)

text \<open>
  C10, as the code has it. For a categorical layer of cardinality \<open>C\<close>, at most
  \<open>2^24\<close>, and any raw value at a pixel, the expansion raises nothing; if the raw value
  rounded to single precision is no integer in \<open>[0, C)\<close>, all \<open>C\<close> channels are 0 at
  that pixel; every channel is 0 or 1 there and at most one of them is 1.
\<close>

theorem preprocess_screen_out_of_range_category:
  assumes a: "has_shape3 (length FEATURES) H W a" and i: "i < length FEATURES"
    and cat: "type (FEATURES ! i) = CATEGORICAL" and y: "y < H" and x: "x < W"
    and bound: "scale (FEATURES ! i) \<le> 2 ^ 24"
  shows "\<exists>t. preprocess_screen np_log FEATURES a = Inr t
           \<and> preprocess_minimap np_log FEATURES a = Inr t
           \<and> ((\<forall>k<scale (FEATURES ! i). astype_float32 (a ! i ! y ! x) \<noteq> Finite (real k)) \<longrightarrow>
                (\<forall>c<scale (FEATURES ! i).
                   t ! (screen_channels (take i FEATURES) + c) ! y ! x = Finite 0))
           \<and> (\<forall>c<scale (FEATURES ! i).
                 t ! (screen_channels (take i FEATURES) + c) ! y ! x = Finite 0 \<or>
                 t ! (screen_channels (take i FEATURES) + c) ! y ! x = Finite 1)
           \<and> card {c. c < scale (FEATURES ! i) \<and>
                       t ! (screen_channels (take i FEATURES) + c) ! y ! x = Finite 1} \<le> 1"
proof -
  let ?v = "astype_float32 (a ! i ! y ! x)"
  let ?C = "scale (FEATURES ! i)"
  from preprocess_screen_categorical_pixel[OF a i cat y x, of np_log] obtain t where
    t: "preprocess_screen np_log FEATURES a = Inr t"
    and px: "\<forall>c<?C. t ! (screen_channels (take i FEATURES) + c) ! y ! x =
                (if np_eq ?v (float32_round (real c)) then Finite 1 else Finite 0)" by blast
  have px': "\<forall>c<?C. t ! (screen_channels (take i FEATURES) + c) ! y ! x =
                (if ?v = Finite (real c) then Finite 1 else Finite 0)"
  proof (intro allI impI)
    fix c assume c: "c < ?C"
    then have c24: "c < 2 ^ 24" using bound by simp
    have "np_eq ?v (float32_round (real c)) = (?v = Finite (real c))"
      unfolding float32_round_nat[OF c24] by (auto simp: np_eq_def)
    with px c show "t ! (screen_channels (take i FEATURES) + c) ! y ! x =
                (if ?v = Finite (real c) then Finite 1 else Finite 0)" by simp
  qed
  have z: "(\<forall>k<?C. ?v \<noteq> Finite (real k)) \<longrightarrow>
             (\<forall>c<?C. t ! (screen_channels (take i FEATURES) + c) ! y ! x = Finite 0)"
    using px' by auto
  have b: "\<forall>c<?C. t ! (screen_channels (take i FEATURES) + c) ! y ! x = Finite 0 \<or>
                   t ! (screen_channels (take i FEATURES) + c) ! y ! x = Finite 1"
    using px' by auto
  let ?S = "{c. c < ?C \<and> t ! (screen_channels (take i FEATURES) + c) ! y ! x = Finite 1}"
  have fin: "finite ?S" by simp
  have "\<forall>c\<in>?S. \<forall>d\<in>?S. c = d"
  proof (intro ballI)
    fix c d assume "c \<in> ?S" "d \<in> ?S"
    then have "?v = Finite (real c)" "?v = Finite (real d)"
      using px' by (auto split: if_splits)
    then show "c = d" by simp
  qed
  then have cd: "card ?S \<le> 1"
    using fin by (simp add: card_le_Suc0_iff_eq)
  from t z b cd show ?thesis by (auto simp: preprocess_minimap_eq)
qed

theorem preprocess_screen_out_of_range_category_witness:
  "\<exists>t. preprocess_screen example_log example_FEATURES example_map = Inr t
      \<and> preprocess_minimap example_log example_FEATURES example_map = Inr t
      \<and> example_map ! 1 ! 1 ! 1 = Finite 7
      \<and> astype_float32 (Finite 7) = Finite 7
      \<and> t ! 1 ! 1 ! 1 = Finite 0 \<and> t ! 2 ! 1 ! 1 = Finite 0 \<and> t ! 3 ! 1 ! 1 = Finite 0"
proof -
  have i: "1 < length example_FEATURES" by (simp add: example_FEATURES_def)
  have y: "(1::nat) < 2" and x: "(1::nat) < 2" by simp_all
  have v: "example_map ! 1 ! 1 ! 1 = Finite 7" by (simp add: example_map_def)
  have c7: "astype_float32 (Finite 7) = Finite 7"
    by (simp add: astype_float32_def float32_round_small)
  have b: "scale (example_FEATURES ! 1) \<le> 2 ^ 24" by (simp add: example_FEATURES_def)
  have out: "\<forall>k<scale (example_FEATURES ! 1).
               astype_float32 (example_map ! 1 ! 1 ! 1) \<noteq> Finite (real k)"
    unfolding v c7 example_layers by auto
  from preprocess_screen_out_of_range_category[OF example_map_shape i example_layers(2) y x b,
      of example_log]
  obtain t where t: "preprocess_screen example_log example_FEATURES example_map = Inr t"
      "preprocess_minimap example_log example_FEATURES example_map = Inr t"
    and px: "(\<forall>k<scale (example_FEATURES ! 1).
                astype_float32 (example_map ! 1 ! 1 ! 1) \<noteq> Finite (real k)) \<longrightarrow>
             (\<forall>c<scale (example_FEATURES ! 1).
                t ! (screen_channels (take 1 example_FEATURES) + c) ! 1 ! 1 = Finite 0)"
    by blast
  from px out have "\<forall>c<scale (example_FEATURES ! 1).
                t ! (screen_channels (take 1 example_FEATURES) + c) ! 1 ! 1 = Finite 0" by blast
  then have px': "\<And>c. c < 3 \<Longrightarrow> t ! (1 + c) ! 1 ! 1 = Finite 0"
    by (simp only: example_layers example_offsets)
  have "t ! 1 ! 1 ! 1 = Finite 0" "t ! 2 ! 1 ! 1 = Finite 0" "t ! 3 ! 1 ! 1 = Finite 0"
    using px'[of 0] px'[of 1] px'[of 2] by (simp_all add: numeral_2_eq_2 numeral_3_eq_3)
  with t v c7 show ?thesis by simp
qed

text \<open>
  C10 as stated fails: the raw value \<open>1 + 2^-30\<close> is no integer, yet it rounds to 1
  in single precision and channel 1 is set at its pixel.
\<close>

theorem preprocess_screen_non_integer_counterexample:
  "example_offgrid_map ! 0 ! 0 ! 0 = Finite (1 + 1 / 2 ^ 30)
   \<and> (1 + 1 / 2 ^ 30 :: real) \<notin> \<nat>
   \<and> scale (example_offgrid_FEATURES ! 0) = 3
   \<and> preprocess_screen example_log example_offgrid_FEATURES example_offgrid_map =
       Inr [[[Finite 0]], [[Finite 1]], [[Finite 0]]]"
proof -
  have "preprocess_screen example_log example_offgrid_FEATURES example_offgrid_map =
       Inr [[[Finite 0]], [[Finite 1]], [[Finite 0]]]"
    unfolding preprocess_screen_def Let_def example_cast
    by (simp add: example_offgrid_FEATURES_def np_concatenate_def
      example_upt example_nonzero setitem3_def np_zeros3_def
      shape1_def shape2_def numeral_2_eq_2 numeral_3_eq_3)
  then show ?thesis
    using above_one_not_nat by (simp add: example_offgrid_map_def example_offgrid_FEATURES_def)
qed

section \<open>Properties of the one-hot helper\<close>

lemma sequence_map_Inr:
  "\<forall>x\<in>set xs. f x = Inr (g x) \<Longrightarrow> sequence (map f xs) = Inr (map g xs)"
  by (induction xs) simp_all

lemma take_rows_expand:
  "\<forall>i\<in>set_ndarray idx. 0 \<le> i \<and> i < int (length m) \<Longrightarrow> take_rows m idx = Inr (expand m idx)"
proof (induction idx)
  case (Scalar i)
  then show ?case by (simp add: getitem_in_range)
next
  case (Array xs)
  have "\<forall>x\<in>set xs. take_rows m x = Inr (expand m x)"
    using Array.IH Array.prems by auto
  then have "sequence (map (take_rows m) xs) = Inr (map (expand m) xs)"
    by (rule sequence_map_Inr)
  then show ?case by simp
qed

lemma expand_shape:
  assumes rows: "\<forall>r\<in>set m. length r = d"
  shows "has_shape s idx \<Longrightarrow> \<forall>i\<in>set_ndarray idx. 0 \<le> i \<and> i < int (length m) \<Longrightarrow>
         has_shape (s @ [d]) (expand m idx)"
proof (induction idx arbitrary: s)
  case (Scalar i)
  then have "nat i < length m" by auto
  then have "length (m ! nat i) = d" using rows by simp
  with Scalar show ?case by (simp add: list_all_iff)
next
  case (Array xs)
  from Array.prems(1) obtain n s' where s: "s = n # s'" "length xs = n" "\<forall>x\<in>set xs. has_shape s' x"
    by (cases s) (auto simp: list_all_iff)
  have "\<forall>x\<in>set xs. has_shape (s' @ [d]) (expand m x)"
    using Array.IH s(3) Array.prems(2) by auto
  then show ?case using s by (simp add: list_all_iff)
qed

lemma expand_item:
  "item idx p = Some i \<Longrightarrow> j < length (m ! nat i) \<Longrightarrow>
   item (expand m idx) (p @ [j]) = Some (m ! nat i ! j)"
proof (induction idx p rule: item.induct)
  case (4 xs k p)
  then show ?case by (auto split: if_splits)
qed simp_all

lemma np_eye_length: "length (np_eye n) = n"
  by (simp add: np_eye_def)

lemma np_eye_row_length: "\<forall>r\<in>set (np_eye n). length r = n"
  by (auto simp: np_eye_def)

lemma np_eye_nth: "r < n \<Longrightarrow> c < n \<Longrightarrow> np_eye n ! r ! c = (if r = c then 1 else 0)"
  by (simp add: np_eye_def)

lemma astype_int_of_nat: "astype_int (real k) = int k"
  by (simp add: astype_int_def)

lemma item_map_ndarray: "item (map_ndarray f a) p = map_option f (item a p)"
  by (induction a p rule: item.induct) simp_all

lemma has_shape_map_ndarray: "has_shape s (map_ndarray f a) = has_shape s a"
proof (induction a arbitrary: s)
  case (Scalar v)
  show ?case by simp
next
  case (Array xs)
  then show ?case by (cases s) (auto simp: list_all_iff)
qed

text \<open>
  C9. For a positive depth and an index array of any shape whose entries are integers
  in \<open>[0, depth)\<close>, \<^verbatim>\<open>one_hot\<close> returns an array of the same shape with one more,
  trailing axis of length \<open>depth\<close>; along that axis the entries at the position of an
  index \<open>k\<close> are 1 at \<open>k\<close> and 0 elsewhere.
\<close>

theorem one_hot_trailing_axis:
  assumes depth: "0 < depth" and shape: "has_shape s indices"
    and range: "\<forall>v\<in>set_ndarray indices. \<exists>k<nat depth. v = real k"
  shows "\<exists>out. one_hot indices depth = Inr out \<and> has_shape (s @ [nat depth]) out
           \<and> (\<forall>p k. item indices p = Some (real k) \<longrightarrow>
                 (\<forall>j<nat depth. item out (p @ [j]) = Some (if j = k then 1 else 0)))"
proof -
  let ?m = "np_eye (nat depth)"
  let ?idx = "map_ndarray astype_int indices"
  have r: "\<forall>i\<in>set_ndarray ?idx. 0 \<le> i \<and> i < int (length ?m)"
    using range by (auto simp: ndarray.set_map np_eye_length astype_int_of_nat)
  have out: "one_hot indices depth = Inr (expand ?m ?idx)"
    using depth take_rows_expand[OF r] by (simp add: one_hot_def)
  have sh: "has_shape (s @ [nat depth]) (expand ?m ?idx)"
    using expand_shape[OF np_eye_row_length _ r, of s] shape by (simp add: has_shape_map_ndarray)
  have it: "\<forall>p k. item indices p = Some (real k) \<longrightarrow>
                 (\<forall>j<nat depth. item (expand ?m ?idx) (p @ [j]) = Some (if j = k then 1 else 0))"
  proof (intro allI impI)
    fix p k j assume p: "item indices p = Some (real k)" and j: "j < nat depth"
    have "real k \<in> set_ndarray indices" using p
      by (induction indices p rule: item.induct) (auto split: if_splits)
    with range have k: "k < nat depth" by auto
    have i: "item ?idx p = Some (int k)" using p by (simp add: item_map_ndarray astype_int_of_nat)
    have "length (?m ! nat (int k)) = nat depth" using k np_eye_row_length[of "nat depth"]
      by (simp add: np_eye_length)
    with j have j': "j < length (?m ! nat (int k))" by simp
    from expand_item[OF i j'] show "item (expand ?m ?idx) (p @ [j]) = Some (if j = k then 1 else 0)"
      using k j by (simp add: np_eye_nth eq_commute)
  qed
  from out sh it show ?thesis by blast
qed

theorem one_hot_trailing_axis_witness:
  "\<exists>out. one_hot example_indices 3 = Inr out \<and> has_shape [2, 2, 3] out
      \<and> item example_indices [0, 1] = Some 2
      \<and> item out [0, 1, 0] = Some 0 \<and> item out [0, 1, 1] = Some 0 \<and> item out [0, 1, 2] = Some 1"
proof -
  have d: "(0::int) < 3" by simp
  have sh: "has_shape [2, 2] example_indices" by (simp add: example_indices_def)
  have rg: "\<forall>v\<in>set_ndarray example_indices. \<exists>k<nat 3. v = real k"
  proof -
    have "\<exists>k<nat 3. (0::real) = real k" by (rule exI[of _ 0]) simp
    moreover have "\<exists>k<nat 3. (1::real) = real k" by (rule exI[of _ 1]) simp
    moreover have "\<exists>k<nat 3. (2::real) = real k" by (rule exI[of _ 2]) simp
    ultimately show ?thesis by (simp add: example_indices_def)
  qed
  have it: "item example_indices [0, 1] = Some (real 2)" by (simp add: example_indices_def)
  from one_hot_trailing_axis[OF d sh rg] obtain out where
    o: "one_hot example_indices 3 = Inr out" "has_shape ([2, 2] @ [nat 3]) out"
    and px: "\<forall>p k. item example_indices p = Some (real k) \<longrightarrow>
               (\<forall>j<nat 3. item out (p @ [j]) = Some (if j = k then 1 else 0))"
    by blast
  from px it have a: "\<And>j. j < nat 3 \<Longrightarrow> item out ([0, 1] @ [j]) = Some (if j = 2 then 1 else 0)"
    by blast
  have "item out [0, 1, 0] = Some 0" "item out [0, 1, 1] = Some 0" "item out [0, 1, 2] = Some 1"
    using a[of 0] a[of 1] a[of 2] by simp_all
  with o it show ?thesis by simp
qed

end
